theory Spec2Isabelle
  imports Complex_Main "HOL-Library.Word"
begin

section \<open>Values of the host language\<close>

subsection \<open>Numbers\<close>

text \<open>
  A \<open>number\<close> of the source is an IEEE-754 double. Its value is kept exactly: a finite
  double is the rational it denotes, and the three special values are constructors of
  their own. Positive and negative zero are both \<open>Finite 0\<close>: the source only compares
  numbers, tests them with \<open>Number.isInteger\<close> and stores them through \<open>DataView\<close>
  setters, and the two zeros differ in none of these except \<open>setFloat32\<close> and
  \<open>setFloat64\<close>, which no tag reaches with a zero (the Float and Double constructors
  reject every integer).
\<close>

datatype jsnumber = Finite rat | NaN | PosInfinity | NegInfinity

text \<open>\<open>x > c\<close> and \<open>x < c\<close> for a finite constant \<open>c\<close>; every comparison with NaN is false.\<close>

fun num_gt :: "jsnumber \<Rightarrow> rat \<Rightarrow> bool" where
  "num_gt (Finite q) c = (q > c)"
| "num_gt NaN c = False"
| "num_gt PosInfinity c = True"
| "num_gt NegInfinity c = False"

fun num_lt :: "jsnumber \<Rightarrow> rat \<Rightarrow> bool" where
  "num_lt (Finite q) c = (q < c)"
| "num_lt NaN c = False"
| "num_lt PosInfinity c = False"
| "num_lt NegInfinity c = True"

text \<open>\<open>Number.isInteger\<close>: a finite number without fractional part.\<close>

fun isInteger :: "jsnumber \<Rightarrow> bool" where
  "isInteger (Finite q) = (of_int \<lfloor>q\<rfloor> = q)"
| "isInteger NaN = False"
| "isInteger PosInfinity = False"
| "isInteger NegInfinity = False"

text \<open>
  The integer conversion in front of every integer setter of \<open>DataView\<close> (ToInt8, ToUint8,
  ToInt16, ..., all of them ToNumber, truncation towards zero, then reduction modulo the
  width): NaN and the infinities become 0. The reduction is the \<open>word_of_int\<close> at the
  setter.
\<close>

fun toIntegerOrZero :: "jsnumber \<Rightarrow> int" where
  "toIntegerOrZero (Finite q) = (if q \<ge> 0 then \<lfloor>q\<rfloor> else \<lceil>q\<rceil>)"
| "toIntegerOrZero NaN = 0"
| "toIntegerOrZero PosInfinity = 0"
| "toIntegerOrZero NegInfinity = 0"

subsection \<open>IEEE-754 binary formats\<close>

text \<open>
  A binary format with \<open>m\<close> fraction bits and \<open>e\<close> exponent bits: binary32 is
  \<open>m = 23\<close>, \<open>e = 8\<close>, binary64 is \<open>m = 52\<close>, \<open>e = 11\<close>. Bit patterns are
  natural numbers below \<open>2 ^ (1 + e + m)\<close>.
\<close>

definition pow2 :: "int \<Rightarrow> rat" where
  "pow2 k = (if k \<ge> 0 then 2 ^ nat k else 1 / 2 ^ nat (- k))"

definition bias :: "nat \<Rightarrow> int" where
  "bias e = 2 ^ (e - 1) - 1"

text \<open>The value of a bit pattern (\<open>getFloat32\<close>, \<open>getFloat64\<close>): exact.\<close>

definition ieee_decode :: "nat \<Rightarrow> nat \<Rightarrow> nat \<Rightarrow> jsnumber" where
  "ieee_decode m e bits =
     (let sgn = (bits div 2 ^ (e + m)) mod 2;
          ex = (bits div 2 ^ m) mod 2 ^ e;
          ma = bits mod 2 ^ m
      in if ex = 2 ^ e - 1 then
           (if ma \<noteq> 0 then NaN else if sgn = 0 then PosInfinity else NegInfinity)
         else
           (let mag = (if ex = 0 then of_nat ma * pow2 (1 - bias e - int m)
                       else of_nat (2 ^ m + ma) * pow2 (int ex - bias e - int m))
            in Finite (if sgn = 0 then mag else - mag)))"

function bitlength :: "nat \<Rightarrow> nat" where
  "bitlength n = (if n = 0 then 0 else Suc (bitlength (n div 2)))"
  by pat_completeness auto
termination
  by (relation "measure (\<lambda>n. n)") auto

declare bitlength.simps [simp del]

text \<open>\<open>\<lfloor>log\<^sub>2 a\<rfloor>\<close> for a positive rational \<open>a\<close>, from the bit lengths of numerator and denominator.\<close>

definition ilog2 :: "rat \<Rightarrow> int" where
  "ilog2 a =
     (let (n, d) = quotient_of a;
          k = int (bitlength (nat n)) - int (bitlength (nat d))
      in if pow2 k \<le> a then k else k - 1)"

definition round_half_even :: "rat \<Rightarrow> int" where
  "round_half_even q =
     (let f = \<lfloor>q\<rfloor>; d = q - of_int f
      in if d < 1 / 2 then f else if d > 1 / 2 then f + 1
         else if even f then f else f + 1)"

text \<open>
  The bit pattern stored by \<open>setFloat32\<close> and \<open>setFloat64\<close>: round to nearest, ties to
  even, overflow to infinity, NaN as the quiet NaN with an empty payload. Exponent and
  fraction are computed as one number, so that a fraction rounded up to \<open>2 ^ m\<close> carries
  into the exponent.
\<close>

definition ieee_encode :: "nat \<Rightarrow> nat \<Rightarrow> jsnumber \<Rightarrow> nat" where
  "ieee_encode m e x =
     (let inf = (2 ^ e - 1) * 2 ^ m
      in case x of
           NaN \<Rightarrow> inf + 2 ^ (m - 1)
         | PosInfinity \<Rightarrow> inf
         | NegInfinity \<Rightarrow> 2 ^ (e + m) + inf
         | Finite q \<Rightarrow>
             (let a = \<bar>q\<bar>;
                  mag = (if a = 0 then 0
                         else let ex = max (1 - bias e) (ilog2 a);
                                  n = round_half_even (a / pow2 (ex - int m))
                              in nat ((ex - (1 - bias e)) * 2 ^ m + n))
              in (if q < 0 then 2 ^ (e + m) else 0) + min mag inf))"

text \<open>
  A numeric literal of the source denotes the double nearest to its decimal value.
  Literals that are doubles already (127, 32767, 2147483647, ...) are written as they are.
\<close>

definition number_literal :: "rat \<Rightarrow> jsnumber" where
  "number_literal q = ieee_decode 52 11 (ieee_encode 52 11 (Finite q))"

subsection \<open>Strings and the text codecs\<close>

text \<open>
  A string of the source is a sequence of UTF-16 code units. \<open>utf8Encode\<close> is
  \<open>TextEncoder.encode\<close>: a surrogate pair is one scalar value, a surrogate on its own
  becomes U+FFFD, and every scalar value is written in UTF-8.
\<close>

type_synonym byte = "8 word"
type_synonym jsstring = "16 word list"

definition is_high_surrogate :: "16 word \<Rightarrow> bool" where
  "is_high_surrogate u = (0xD800 \<le> unat u \<and> unat u \<le> 0xDBFF)"

definition is_low_surrogate :: "16 word \<Rightarrow> bool" where
  "is_low_surrogate u = (0xDC00 \<le> unat u \<and> unat u \<le> 0xDFFF)"

definition lone_unit :: "16 word \<Rightarrow> nat" where
  "lone_unit u = (if is_high_surrogate u \<or> is_low_surrogate u then 0xFFFD else unat u)"

fun scalar_values :: "jsstring \<Rightarrow> nat list" where
  "scalar_values [] = []"
| "scalar_values [u] = [lone_unit u]"
| "scalar_values (u # v # us) =
     (if is_high_surrogate u \<and> is_low_surrogate v
      then (0x10000 + (unat u - 0xD800) * 0x400 + (unat v - 0xDC00)) # scalar_values us
      else lone_unit u # scalar_values (v # us))"

definition utf8_bytes :: "nat \<Rightarrow> byte list" where
  "utf8_bytes cp =
     (if cp < 0x80 then [of_nat cp]
      else if cp < 0x800 then [of_nat (0xC0 + cp div 0x40), of_nat (0x80 + cp mod 0x40)]
      else if cp < 0x10000 then
        [of_nat (0xE0 + cp div 0x1000), of_nat (0x80 + (cp div 0x40) mod 0x40),
         of_nat (0x80 + cp mod 0x40)]
      else
        [of_nat (0xF0 + cp div 0x40000), of_nat (0x80 + (cp div 0x1000) mod 0x40),
         of_nat (0x80 + (cp div 0x40) mod 0x40), of_nat (0x80 + cp mod 0x40)])"

definition utf8Encode :: "jsstring \<Rightarrow> byte list" where
  "utf8Encode s = concat (map utf8_bytes (scalar_values s))"

text \<open>
  \<open>utf8Decode\<close> is \<open>new TextDecoder("utf-8").decode\<close>, which never throws: the decoder
  of the Encoding standard with replacement of every ill-formed sequence by U+FFFD. Its
  state is the code point under construction, the number of continuation bytes still
  needed and the bounds for the next byte; a byte outside the bounds ends the sequence
  and is looked at again. A leading byte order mark is dropped.
\<close>

function utf8_decoder :: "nat \<Rightarrow> nat \<Rightarrow> nat \<Rightarrow> nat \<Rightarrow> nat list \<Rightarrow> nat list" where
  "utf8_decoder cp need lo hi [] = (if need \<noteq> 0 then [0xFFFD] else [])"
| "utf8_decoder cp need lo hi (b # bs) =
     (if need = 0 then
        (if b \<le> 0x7F then b # utf8_decoder 0 0 0x80 0xBF bs
         else if 0xC2 \<le> b \<and> b \<le> 0xDF then utf8_decoder (b mod 0x20) 1 0x80 0xBF bs
         else if 0xE0 \<le> b \<and> b \<le> 0xEF then
           utf8_decoder (b mod 0x10) 2 (if b = 0xE0 then 0xA0 else 0x80)
             (if b = 0xED then 0x9F else 0xBF) bs
         else if 0xF0 \<le> b \<and> b \<le> 0xF4 then
           utf8_decoder (b mod 0x08) 3 (if b = 0xF0 then 0x90 else 0x80)
             (if b = 0xF4 then 0x8F else 0xBF) bs
         else 0xFFFD # utf8_decoder 0 0 0x80 0xBF bs)
      else if b < lo \<or> hi < b then 0xFFFD # utf8_decoder 0 0 0x80 0xBF (b # bs)
      else if need = 1 then (cp * 0x40 + b mod 0x40) # utf8_decoder 0 0 0x80 0xBF bs
      else utf8_decoder (cp * 0x40 + b mod 0x40) (need - 1) 0x80 0xBF bs)"
  by pat_completeness auto
termination
  by (relation "measure (\<lambda>(cp, need, lo, hi, bs). 2 * length bs + (if need = 0 then 0 else 1))")
     auto

definition utf16_units :: "nat \<Rightarrow> jsstring" where
  "utf16_units cp =
     (if cp < 0x10000 then [of_nat cp]
      else [of_nat (0xD800 + (cp - 0x10000) div 0x400), of_nat (0xDC00 + (cp - 0x10000) mod 0x400)])"

definition utf8Decode :: "byte list \<Rightarrow> jsstring" where
  "utf8Decode bs =
     (let cps = utf8_decoder 0 0 0x80 0xBF (map unat bs)
      in concat (map utf16_units (case cps of [] \<Rightarrow> [] | c # cs \<Rightarrow> if c = 0xFEFF then cs else cps)))"

section \<open>Errors, the cursor and views of the buffer\<close>

text \<open>
  Every \<open>throw\<close> of the source and every exception of the platform that the source can
  meet is a value. The source throws plain \<open>Error\<close> objects told apart by their message:
  \<^item> \<open>InvalidPayload\<close>: "Invalid payload ..." (scalar constructors);
  \<^item> \<open>ListTypeMismatch\<close>: "Tag type does not match expected type or name not empty.";
  \<^item> \<open>CompoundMustEnd\<close>: "TAG_Compound must end with a TAG_End";
  \<^item> \<open>ReachedEndOfBuffer\<close>: "Reached end of buffer" (entry of \<open>parseNBT\<close>);
  \<^item> \<open>UnexpectedTagType\<close>: "Unexppected tag type" (\<open>parseNBT\<close>).
  The platform raises \<open>RangeError\<close> (a view that does not fit its buffer, an access that
  does not fit its view, a negative length) and \<open>TypeError\<close> (a property read of
  \<open>undefined\<close>). The last \<open>throw\<close> of \<open>parseNBT\<close>, "Unable to parse tag", guards a
  freshly constructed object, which is never falsy, and has no value here.
\<close>

datatype error =
    InvalidPayload
  | ListTypeMismatch
  | CompoundMustEnd
  | ReachedEndOfBuffer
  | UnexpectedTagType
  | RangeError
  | TypeError

text \<open>The cursor \<open>{ buffer: ArrayBuffer; byteOffset: number }\<close>.\<close>

record stream =
  buffer :: "byte list"
  byteOffset :: nat

text \<open>
  \<open>new DataView(buffer, byteOffset, byteLength)\<close> (and the typed-array constructors over
  a buffer) throw a \<open>RangeError\<close> unless the view lies inside the buffer. A view is its
  offset and length; its accessors check the position against the view, not the buffer.
\<close>

record dataview =
  dv_byteOffset :: nat
  dv_byteLength :: nat

definition DataView :: "byte list \<Rightarrow> nat \<Rightarrow> nat \<Rightarrow> error + dataview" where
  "DataView buf off len =
     (if off + len \<le> length buf then Inr \<lparr>dv_byteOffset = off, dv_byteLength = len\<rparr>
      else Inl RangeError)"

definition dv_get :: "byte list \<Rightarrow> dataview \<Rightarrow> nat \<Rightarrow> nat \<Rightarrow> error + byte list" where
  "dv_get buf dv pos n =
     (if pos + n \<le> dv_byteLength dv then Inr (take n (drop (dv_byteOffset dv + pos) buf))
      else Inl RangeError)"

definition dv_set :: "byte list \<Rightarrow> dataview \<Rightarrow> nat \<Rightarrow> byte list \<Rightarrow> error + byte list" where
  "dv_set buf dv pos bs =
     (if pos + length bs \<le> dv_byteLength dv
      then Inr (take (dv_byteOffset dv + pos) buf @ bs
                @ drop (dv_byteOffset dv + pos + length bs) buf)
      else Inl RangeError)"

text \<open>Big-endian byte order (\<open>LITTLE_ENDIAN = false\<close>, and the default of every accessor).\<close>

definition be16 :: "16 word \<Rightarrow> byte list" where
  "be16 w = [ucast (drop_bit 8 w), ucast w]"

definition be32 :: "32 word \<Rightarrow> byte list" where
  "be32 w = [ucast (drop_bit 24 w), ucast (drop_bit 16 w), ucast (drop_bit 8 w), ucast w]"

definition be64 :: "64 word \<Rightarrow> byte list" where
  "be64 w = [ucast (drop_bit 56 w), ucast (drop_bit 48 w), ucast (drop_bit 40 w),
             ucast (drop_bit 32 w), ucast (drop_bit 24 w), ucast (drop_bit 16 w),
             ucast (drop_bit 8 w), ucast w]"

definition be_nat :: "byte list \<Rightarrow> nat" where
  "be_nat bs = foldl (\<lambda>a b. a * 256 + unat b) 0 bs"

definition num :: "nat \<Rightarrow> jsnumber" where
  "num n = Finite (of_nat n)"

definition setUint8 :: "byte list \<Rightarrow> dataview \<Rightarrow> nat \<Rightarrow> jsnumber \<Rightarrow> error + byte list" where
  "setUint8 buf dv pos x = dv_set buf dv pos [word_of_int (toIntegerOrZero x)]"

definition setInt8 :: "byte list \<Rightarrow> dataview \<Rightarrow> nat \<Rightarrow> jsnumber \<Rightarrow> error + byte list" where
  "setInt8 buf dv pos x = dv_set buf dv pos [word_of_int (toIntegerOrZero x)]"

definition setUint16 :: "byte list \<Rightarrow> dataview \<Rightarrow> nat \<Rightarrow> jsnumber \<Rightarrow> error + byte list" where
  "setUint16 buf dv pos x = dv_set buf dv pos (be16 (word_of_int (toIntegerOrZero x)))"

definition setInt16 :: "byte list \<Rightarrow> dataview \<Rightarrow> nat \<Rightarrow> jsnumber \<Rightarrow> error + byte list" where
  "setInt16 buf dv pos x = dv_set buf dv pos (be16 (word_of_int (toIntegerOrZero x)))"

definition setUint32 :: "byte list \<Rightarrow> dataview \<Rightarrow> nat \<Rightarrow> jsnumber \<Rightarrow> error + byte list" where
  "setUint32 buf dv pos x = dv_set buf dv pos (be32 (word_of_int (toIntegerOrZero x)))"

definition setInt32 :: "byte list \<Rightarrow> dataview \<Rightarrow> nat \<Rightarrow> jsnumber \<Rightarrow> error + byte list" where
  "setInt32 buf dv pos x = dv_set buf dv pos (be32 (word_of_int (toIntegerOrZero x)))"

definition setBigInt64 :: "byte list \<Rightarrow> dataview \<Rightarrow> nat \<Rightarrow> int \<Rightarrow> error + byte list" where
  "setBigInt64 buf dv pos x = dv_set buf dv pos (be64 (word_of_int x))"

definition setFloat32 :: "byte list \<Rightarrow> dataview \<Rightarrow> nat \<Rightarrow> jsnumber \<Rightarrow> error + byte list" where
  "setFloat32 buf dv pos x = dv_set buf dv pos (be32 (of_nat (ieee_encode 23 8 x)))"

definition setFloat64 :: "byte list \<Rightarrow> dataview \<Rightarrow> nat \<Rightarrow> jsnumber \<Rightarrow> error + byte list" where
  "setFloat64 buf dv pos x = dv_set buf dv pos (be64 (of_nat (ieee_encode 52 11 x)))"

definition getUint8 :: "byte list \<Rightarrow> dataview \<Rightarrow> nat \<Rightarrow> error + nat" where
  "getUint8 buf dv pos = map_sum id be_nat (dv_get buf dv pos 1)"

definition getInt8 :: "byte list \<Rightarrow> dataview \<Rightarrow> nat \<Rightarrow> error + int" where
  "getInt8 buf dv pos = map_sum id (\<lambda>bs. sint (of_nat (be_nat bs) :: 8 word)) (dv_get buf dv pos 1)"

definition getUint16 :: "byte list \<Rightarrow> dataview \<Rightarrow> nat \<Rightarrow> error + nat" where
  "getUint16 buf dv pos = map_sum id be_nat (dv_get buf dv pos 2)"

definition getInt16 :: "byte list \<Rightarrow> dataview \<Rightarrow> nat \<Rightarrow> error + int" where
  "getInt16 buf dv pos = map_sum id (\<lambda>bs. sint (of_nat (be_nat bs) :: 16 word)) (dv_get buf dv pos 2)"

definition getInt32 :: "byte list \<Rightarrow> dataview \<Rightarrow> nat \<Rightarrow> error + int" where
  "getInt32 buf dv pos = map_sum id (\<lambda>bs. sint (of_nat (be_nat bs) :: 32 word)) (dv_get buf dv pos 4)"

definition getBigInt64 :: "byte list \<Rightarrow> dataview \<Rightarrow> nat \<Rightarrow> error + int" where
  "getBigInt64 buf dv pos = map_sum id (\<lambda>bs. sint (of_nat (be_nat bs) :: 64 word)) (dv_get buf dv pos 8)"

definition getFloat32 :: "byte list \<Rightarrow> dataview \<Rightarrow> nat \<Rightarrow> error + jsnumber" where
  "getFloat32 buf dv pos = map_sum id (\<lambda>bs. ieee_decode 23 8 (be_nat bs)) (dv_get buf dv pos 4)"

definition getFloat64 :: "byte list \<Rightarrow> dataview \<Rightarrow> nat \<Rightarrow> error + jsnumber" where
  "getFloat64 buf dv pos = map_sum id (\<lambda>bs. ieee_decode 52 11 (be_nat bs)) (dv_get buf dv pos 8)"

section \<open>The tag classes\<close>

text \<open>
  One constructor per class, holding the fields the class constructor stores:
  \<open>nameLength\<close>, \<open>name\<close>, the payload and, for the two containers, the cached
  \<open>_payloadLength\<close> (and \<open>_tagType\<close> for a list). The \<open>_payloadLength\<close> of the array
  and string classes is the length of the typed array they hold, which cannot change, and
  is read off the payload. A \<open>TAG_String\<close> holds \<open>_rawPayload\<close>; its \<open>payload\<close> text is
  the image of the raw bytes under the decoder of the \<open>mutf-8\<close> package (in its
  default mode, which replaces what it cannot decode and does not throw) and takes no
  part in any length or in any byte written.
  \<open>TAG_End\<close> passes \<open>0\<close> and \<open>""\<close> to its superclass whatever it is given.
\<close>

datatype tag =
    TAG_End
  | TAG_Byte jsnumber jsstring jsnumber
  | TAG_Short jsnumber jsstring jsnumber
  | TAG_Int jsnumber jsstring jsnumber
  | TAG_Long jsnumber jsstring int
  | TAG_Float jsnumber jsstring jsnumber
  | TAG_Double jsnumber jsstring jsnumber
  | TAG_Byte_Array jsnumber jsstring "8 word list"
  | TAG_String jsnumber jsstring "8 word list"
  | TAG_List jsnumber jsstring jsnumber "tag list" nat
  | TAG_Compound jsnumber jsstring "tag list" nat
  | TAG_Int_Array jsnumber jsstring "32 word list"
  | TAG_Long_Array jsnumber jsstring "64 word list"

text \<open>The static \<open>ID\<close> of the class, copied into \<open>id\<close> by the base constructor.\<close>

fun tag_id :: "tag \<Rightarrow> nat" where
  "tag_id TAG_End = 0"
| "tag_id (TAG_Byte nl n p) = 1"
| "tag_id (TAG_Short nl n p) = 2"
| "tag_id (TAG_Int nl n p) = 3"
| "tag_id (TAG_Long nl n p) = 4"
| "tag_id (TAG_Float nl n p) = 5"
| "tag_id (TAG_Double nl n p) = 6"
| "tag_id (TAG_Byte_Array nl n p) = 7"
| "tag_id (TAG_String nl n p) = 8"
| "tag_id (TAG_List nl n tt p len) = 9"
| "tag_id (TAG_Compound nl n p len) = 10"
| "tag_id (TAG_Int_Array nl n p) = 11"
| "tag_id (TAG_Long_Array nl n p) = 12"

fun tag_nameLength :: "tag \<Rightarrow> jsnumber" where
  "tag_nameLength TAG_End = Finite 0"
| "tag_nameLength (TAG_Byte nl n p) = nl"
| "tag_nameLength (TAG_Short nl n p) = nl"
| "tag_nameLength (TAG_Int nl n p) = nl"
| "tag_nameLength (TAG_Long nl n p) = nl"
| "tag_nameLength (TAG_Float nl n p) = nl"
| "tag_nameLength (TAG_Double nl n p) = nl"
| "tag_nameLength (TAG_Byte_Array nl n p) = nl"
| "tag_nameLength (TAG_String nl n p) = nl"
| "tag_nameLength (TAG_List nl n tt p len) = nl"
| "tag_nameLength (TAG_Compound nl n p len) = nl"
| "tag_nameLength (TAG_Int_Array nl n p) = nl"
| "tag_nameLength (TAG_Long_Array nl n p) = nl"

fun tag_name :: "tag \<Rightarrow> jsstring" where
  "tag_name TAG_End = []"
| "tag_name (TAG_Byte nl n p) = n"
| "tag_name (TAG_Short nl n p) = n"
| "tag_name (TAG_Int nl n p) = n"
| "tag_name (TAG_Long nl n p) = n"
| "tag_name (TAG_Float nl n p) = n"
| "tag_name (TAG_Double nl n p) = n"
| "tag_name (TAG_Byte_Array nl n p) = n"
| "tag_name (TAG_String nl n p) = n"
| "tag_name (TAG_List nl n tt p len) = n"
| "tag_name (TAG_Compound nl n p len) = n"
| "tag_name (TAG_Int_Array nl n p) = n"
| "tag_name (TAG_Long_Array nl n p) = n"

subsection \<open>Lengths\<close>

text \<open>The field \<open>headerLength: number = 2\<close> of \<open>AbstractNBT\<close>, which nothing assigns.\<close>

definition headerLength :: nat where
  "headerLength = 2"

fun getHeaderLength :: "tag \<Rightarrow> nat" where
  "getHeaderLength TAG_End = 1"
| "getHeaderLength t = 1 + 2 + headerLength"

fun getPayloadLength :: "tag \<Rightarrow> nat" where
  "getPayloadLength TAG_End = 0"
| "getPayloadLength (TAG_Byte nl n p) = 1"
| "getPayloadLength (TAG_Short nl n p) = 2"
| "getPayloadLength (TAG_Int nl n p) = 4"
| "getPayloadLength (TAG_Long nl n p) = 8"
| "getPayloadLength (TAG_Float nl n p) = 4"
| "getPayloadLength (TAG_Double nl n p) = 8"
| "getPayloadLength (TAG_Byte_Array nl n p) = 4 + length p"
| "getPayloadLength (TAG_String nl n p) = 2 + length p"
| "getPayloadLength (TAG_List nl n tt p len) = 2 + len"
| "getPayloadLength (TAG_Compound nl n p len) = len"
| "getPayloadLength (TAG_Int_Array nl n p) = 4 + length p * 4"
| "getPayloadLength (TAG_Long_Array nl n p) = 4 + length p * 8"

definition getTotalLength :: "tag \<Rightarrow> nat" where
  "getTotalLength t = getHeaderLength t + getPayloadLength t"

subsection \<open>Constructors\<close>

text \<open>
  \<open>new_TAG_X\<close> is \<open>new TAG_X(nameLength, name, payload)\<close>: the object, or the error the
  constructor throws. The parameter types are those the source declares, so the
  \<open>typeof\<close> tests of the Long, Float and Double constructors never fire.
\<close>

definition new_TAG_End :: "jsnumber \<Rightarrow> jsstring \<Rightarrow> error + tag" where
  "new_TAG_End nl n = Inr TAG_End"

definition new_TAG_Byte :: "jsnumber \<Rightarrow> jsstring \<Rightarrow> jsnumber \<Rightarrow> error + tag" where
  "new_TAG_Byte nl n payload =
     (if num_gt payload 127 \<or> num_lt payload (- 128) then Inl InvalidPayload
      else Inr (TAG_Byte nl n payload))"

definition new_TAG_Short :: "jsnumber \<Rightarrow> jsstring \<Rightarrow> jsnumber \<Rightarrow> error + tag" where
  "new_TAG_Short nl n payload =
     (if num_gt payload 32767 \<or> num_lt payload (- 32768) \<or> \<not> isInteger payload
      then Inl InvalidPayload
      else Inr (TAG_Short nl n payload))"

definition new_TAG_Int :: "jsnumber \<Rightarrow> jsstring \<Rightarrow> jsnumber \<Rightarrow> error + tag" where
  "new_TAG_Int nl n payload =
     (if num_gt payload 2147483647 \<or> num_lt payload (- 2147483648) \<or> \<not> isInteger payload
      then Inl InvalidPayload
      else Inr (TAG_Int nl n payload))"

text \<open>\<open>BigInt(x)\<close> for a number \<open>x\<close>: a \<open>RangeError\<close> unless \<open>x\<close> is an integer.\<close>

definition BigInt :: "jsnumber \<Rightarrow> error + int" where
  "BigInt x = (if isInteger x then Inr (toIntegerOrZero x) else Inl RangeError)"

text \<open>
  The bounds of the Long constructor are written as number literals inside \<open>BigInt(...)\<close>:
  \<open>BigInt(9223372036854775807)\<close> and \<open>BigInt(-9223372036854775808)\<close>.
\<close>

definition new_TAG_Long :: "jsnumber \<Rightarrow> jsstring \<Rightarrow> int \<Rightarrow> error + tag" where
  "new_TAG_Long nl n payload =
     (case BigInt (number_literal 9223372036854775807) of
        Inl e \<Rightarrow> Inl e
      | Inr hi \<Rightarrow>
          if payload > hi then Inl InvalidPayload
          else (case BigInt (number_literal (- 9223372036854775808)) of
                  Inl e \<Rightarrow> Inl e
                | Inr lo \<Rightarrow>
                    if payload < lo then Inl InvalidPayload
                    else Inr (TAG_Long nl n payload)))"

definition new_TAG_Float :: "jsnumber \<Rightarrow> jsstring \<Rightarrow> jsnumber \<Rightarrow> error + tag" where
  "new_TAG_Float nl n payload =
     (if isInteger payload then Inl InvalidPayload else Inr (TAG_Float nl n payload))"

definition new_TAG_Double :: "jsnumber \<Rightarrow> jsstring \<Rightarrow> jsnumber \<Rightarrow> error + tag" where
  "new_TAG_Double nl n payload =
     (if isInteger payload then Inl InvalidPayload else Inr (TAG_Double nl n payload))"

definition new_TAG_Byte_Array :: "jsnumber \<Rightarrow> jsstring \<Rightarrow> 8 word list \<Rightarrow> error + tag" where
  "new_TAG_Byte_Array nl n payload = Inr (TAG_Byte_Array nl n payload)"

definition new_TAG_String :: "jsnumber \<Rightarrow> jsstring \<Rightarrow> 8 word list \<Rightarrow> error + tag" where
  "new_TAG_String nl n rawPayload = Inr (TAG_String nl n rawPayload)"

text \<open>
  \<open>payload.reduce((a, b) => a + b.getTotalLength(), 0)\<close> of both container
  constructors.
\<close>

definition sumTotalLength :: "tag list \<Rightarrow> nat" where
  "sumTotalLength payload = foldl (\<lambda>a b. a + getTotalLength b) 0 payload"

definition new_TAG_List :: "jsnumber \<Rightarrow> jsstring \<Rightarrow> jsnumber \<Rightarrow> tag list \<Rightarrow> error + tag" where
  "new_TAG_List nl n tagType payload =
     (let payloadLength = 1 + 4 + sumTotalLength payload
      in if list_ex (\<lambda>tag. num (tag_id tag) \<noteq> tagType \<or> tag_nameLength tag \<noteq> Finite 0) payload
         then Inl ListTypeMismatch
         else Inr (TAG_List nl n tagType payload payloadLength))"

text \<open>
  The Compound constructor reads \<open>this.payload[this.payload.length - 1].id\<close>: on an empty
  payload the element is \<open>undefined\<close> and reading its \<open>id\<close> is a \<open>TypeError\<close>.
\<close>

definition new_TAG_Compound :: "jsnumber \<Rightarrow> jsstring \<Rightarrow> tag list \<Rightarrow> error + tag" where
  "new_TAG_Compound nl n payload =
     (let payloadLength = sumTotalLength payload
      in if payload = [] then Inl TypeError
         else if tag_id (last payload) \<noteq> 0 then Inl CompoundMustEnd
         else Inr (TAG_Compound nl n payload payloadLength))"

definition new_TAG_Int_Array :: "jsnumber \<Rightarrow> jsstring \<Rightarrow> 32 word list \<Rightarrow> error + tag" where
  "new_TAG_Int_Array nl n payload = Inr (TAG_Int_Array nl n payload)"

definition new_TAG_Long_Array :: "jsnumber \<Rightarrow> jsstring \<Rightarrow> 64 word list \<Rightarrow> error + tag" where
  "new_TAG_Long_Array nl n payload = Inr (TAG_Long_Array nl n payload)"

section \<open>Encoding\<close>

text \<open>
  The loop of \<open>writeHeader\<close> over the encoded name: \<open>data.setUint8(3 + idx, nameArray[idx])\<close>
  for each index, every access checked against the view.
\<close>

fun writeName :: "byte list \<Rightarrow> dataview \<Rightarrow> nat \<Rightarrow> byte list \<Rightarrow> error + byte list" where
  "writeName buf data idx [] = Inr buf"
| "writeName buf data idx (b # bs) =
     (case dv_set buf data (3 + idx) [b] of
        Inl e \<Rightarrow> Inl e
      | Inr buf' \<Rightarrow> writeName buf' data (Suc idx) bs)"

text \<open>
  \<open>writeHeader\<close>: the End tag overrides it and writes its id alone. Every other class
  takes a view of \<open>getHeaderLength()\<close> bytes, stores the id at 0, \<open>nameLength\<close> as a
  32-bit unsigned integer at 1, the encoded name from 3 on, and advances the cursor by
  the length of the view.
\<close>

definition writeHeader :: "tag \<Rightarrow> stream \<Rightarrow> error + stream" where
  "writeHeader t s =
     (if t = TAG_End then
        (case DataView (buffer s) (byteOffset s) 1 of
           Inl e \<Rightarrow> Inl e
         | Inr data \<Rightarrow>
             (case setUint8 (buffer s) data 0 (num (tag_id t)) of
                Inl e \<Rightarrow> Inl e
              | Inr buf \<Rightarrow> Inr \<lparr>buffer = buf, byteOffset = byteOffset s + 1\<rparr>))
      else
        (case DataView (buffer s) (byteOffset s) (getHeaderLength t) of
           Inl e \<Rightarrow> Inl e
         | Inr data \<Rightarrow>
             (case setUint8 (buffer s) data 0 (num (tag_id t)) of
                Inl e \<Rightarrow> Inl e
              | Inr buf1 \<Rightarrow>
                  (case setUint32 buf1 data 1 (tag_nameLength t) of
                     Inl e \<Rightarrow> Inl e
                   | Inr buf2 \<Rightarrow>
                       (case writeName buf2 data 0 (utf8Encode (tag_name t)) of
                          Inl e \<Rightarrow> Inl e
                        | Inr buf3 \<Rightarrow>
                            Inr \<lparr>buffer = buf3,
                                 byteOffset = byteOffset s + dv_byteLength data\<rparr>)))))"

text \<open>
  The scalar, array and string \<open>writePayload\<close>s: a view of \<open>getPayloadLength()\<close> bytes at
  the cursor, the stores, and the cursor advanced by \<open>getPayloadLength()\<close>. \<open>store\<close> is
  the sequence of stores into the view; the element loops of the array classes stay
  inside their view by its length, and are one store of all element bytes.
\<close>

definition writeView ::
  "stream \<Rightarrow> nat \<Rightarrow> (byte list \<Rightarrow> dataview \<Rightarrow> error + byte list) \<Rightarrow> error + stream" where
  "writeView s len store =
     (case DataView (buffer s) (byteOffset s) len of
        Inl e \<Rightarrow> Inl e
      | Inr data \<Rightarrow>
          (case store (buffer s) data of
             Inl e \<Rightarrow> Inl e
           | Inr buf \<Rightarrow> Inr \<lparr>buffer = buf, byteOffset = byteOffset s + len\<rparr>))"

definition storeArray ::
  "nat \<Rightarrow> byte list \<Rightarrow> byte list \<Rightarrow> dataview \<Rightarrow> error + byte list" where
  "storeArray count bytes buf data =
     (case setInt32 buf data 0 (num count) of
        Inl e \<Rightarrow> Inl e
      | Inr buf' \<Rightarrow> dv_set buf' data 4 bytes)"

fun writePayload :: "tag \<Rightarrow> stream \<Rightarrow> error + stream"
  and writePayload_each :: "tag list \<Rightarrow> stream \<Rightarrow> error + stream"
  and toBytes_each :: "tag list \<Rightarrow> stream \<Rightarrow> error + stream" where
  "writePayload TAG_End s = Inr s"
| "writePayload (TAG_Byte nl n p) s =
     writeView s (getPayloadLength (TAG_Byte nl n p)) (\<lambda>buf data. setInt8 buf data 0 p)"
| "writePayload (TAG_Short nl n p) s =
     writeView s (getPayloadLength (TAG_Short nl n p)) (\<lambda>buf data. setInt16 buf data 0 p)"
| "writePayload (TAG_Int nl n p) s =
     writeView s (getPayloadLength (TAG_Int nl n p)) (\<lambda>buf data. setInt32 buf data 0 p)"
| "writePayload (TAG_Long nl n p) s =
     writeView s (getPayloadLength (TAG_Long nl n p)) (\<lambda>buf data. setBigInt64 buf data 0 p)"
| "writePayload (TAG_Float nl n p) s =
     writeView s (getPayloadLength (TAG_Float nl n p)) (\<lambda>buf data. setFloat32 buf data 0 p)"
| "writePayload (TAG_Double nl n p) s =
     writeView s (getPayloadLength (TAG_Double nl n p)) (\<lambda>buf data. setFloat64 buf data 0 p)"
| "writePayload (TAG_Byte_Array nl n p) s =
     writeView s (getPayloadLength (TAG_Byte_Array nl n p)) (storeArray (length p) p)"
| "writePayload (TAG_String nl n p) s =
     writeView s (getPayloadLength (TAG_String nl n p))
       (\<lambda>buf data. case setUint16 buf data 0 (num (length p)) of
                      Inl e \<Rightarrow> Inl e
                    | Inr buf' \<Rightarrow> dv_set buf' data 2 p)"
| "writePayload (TAG_List nl n tt p len) s =
     (case writeView s 5
             (\<lambda>buf data. case setUint8 buf data 0 tt of
                            Inl e \<Rightarrow> Inl e
                          | Inr buf' \<Rightarrow> setInt32 buf' data 1 (num (length p))) of
        Inl e \<Rightarrow> Inl e
      | Inr s' \<Rightarrow> writePayload_each p s')"
| "writePayload (TAG_Compound nl n p len) s = toBytes_each p s"
| "writePayload (TAG_Int_Array nl n p) s =
     writeView s (getPayloadLength (TAG_Int_Array nl n p))
       (storeArray (length p) (concat (map be32 p)))"
| "writePayload (TAG_Long_Array nl n p) s =
     writeView s (getPayloadLength (TAG_Long_Array nl n p))
       (storeArray (length p) (concat (map be64 p)))"
| "writePayload_each [] s = Inr s"
| "writePayload_each (t # ts) s =
     (case writePayload t s of Inl e \<Rightarrow> Inl e | Inr s' \<Rightarrow> writePayload_each ts s')"
| "toBytes_each [] s = Inr s"
| "toBytes_each (t # ts) s =
     (case writeHeader t s of
        Inl e \<Rightarrow> Inl e
      | Inr s1 \<Rightarrow>
          (case writePayload t s1 of Inl e \<Rightarrow> Inl e | Inr s2 \<Rightarrow> toBytes_each ts s2))"

text \<open>\<open>toBytes\<close>: the header, then the payload.\<close>

definition toBytes :: "tag \<Rightarrow> stream \<Rightarrow> error + stream" where
  "toBytes t s = (case writeHeader t s of Inl e \<Rightarrow> Inl e | Inr s' \<Rightarrow> writePayload t s')"

section \<open>Decoding\<close>

text \<open>
  A read at the cursor: a view of \<open>len\<close> bytes there, the accessor, and the cursor
  advanced by \<open>len\<close>.
\<close>

definition readView ::
  "stream \<Rightarrow> nat \<Rightarrow> (byte list \<Rightarrow> dataview \<Rightarrow> error + 'a) \<Rightarrow> error + ('a \<times> stream)" where
  "readView s len get =
     (case DataView (buffer s) (byteOffset s) len of
        Inl e \<Rightarrow> Inl e
      | Inr data \<Rightarrow>
          (case get (buffer s) data of
             Inl e \<Rightarrow> Inl e
           | Inr v \<Rightarrow> Inr (v, s\<lparr>byteOffset := byteOffset s + len\<rparr>)))"

definition int_num :: "int \<Rightarrow> jsnumber" where
  "int_num i = Finite (of_int i)"

text \<open>
  \<open>new Int8Array(buffer, byteOffset, length)\<close> and \<open>new Uint8Array(...)\<close>: a
  \<open>RangeError\<close> for a negative length or a range outside the buffer; the elements are
  the bytes of the range. \<open>readElements\<close> is the same for \<open>_arrayFromDataView\<close> over
  \<open>new DataView(buffer, byteOffset, length * size)\<close>, whose elements are read big-endian.
\<close>

definition readElements ::
  "stream \<Rightarrow> int \<Rightarrow> nat \<Rightarrow> (byte list \<Rightarrow> 'a) \<Rightarrow> error + ('a list \<times> stream)" where
  "readElements s len sz conv =
     (if len < 0 then Inl RangeError
      else case DataView (buffer s) (byteOffset s) (nat len * sz) of
        Inl e \<Rightarrow> Inl e
      | Inr data \<Rightarrow>
          Inr (map (\<lambda>i. conv (take sz (drop (byteOffset s + sz * i) (buffer s))))
                 [0..<nat len],
               s\<lparr>byteOffset := byteOffset s + nat len * sz\<rparr>))"

definition TAG_Byte_readPayload :: "stream \<Rightarrow> error + (jsnumber \<times> stream)" where
  "TAG_Byte_readPayload s = readView s 1 (\<lambda>buf data. map_sum id int_num (getInt8 buf data 0))"

definition TAG_Short_readPayload :: "stream \<Rightarrow> error + (jsnumber \<times> stream)" where
  "TAG_Short_readPayload s = readView s 2 (\<lambda>buf data. map_sum id int_num (getInt16 buf data 0))"

definition TAG_Int_readPayload :: "stream \<Rightarrow> error + (jsnumber \<times> stream)" where
  "TAG_Int_readPayload s = readView s 4 (\<lambda>buf data. map_sum id int_num (getInt32 buf data 0))"

definition TAG_Long_readPayload :: "stream \<Rightarrow> error + (int \<times> stream)" where
  "TAG_Long_readPayload s = readView s 8 (\<lambda>buf data. getBigInt64 buf data 0)"

definition TAG_Float_readPayload :: "stream \<Rightarrow> error + (jsnumber \<times> stream)" where
  "TAG_Float_readPayload s = readView s 4 (\<lambda>buf data. getFloat32 buf data 0)"

definition TAG_Double_readPayload :: "stream \<Rightarrow> error + (jsnumber \<times> stream)" where
  "TAG_Double_readPayload s = readView s 8 (\<lambda>buf data. getFloat64 buf data 0)"

definition TAG_Byte_Array_readPayload :: "stream \<Rightarrow> error + (8 word list \<times> stream)" where
  "TAG_Byte_Array_readPayload s =
     (case readView s 4 (\<lambda>buf data. getInt32 buf data 0) of
        Inl e \<Rightarrow> Inl e
      | Inr (payloadLength, s') \<Rightarrow> readElements s' payloadLength 1 (\<lambda>bs. of_nat (be_nat bs)))"

definition TAG_String_readPayload :: "stream \<Rightarrow> error + (8 word list \<times> stream)" where
  "TAG_String_readPayload s =
     (case readView s 2 (\<lambda>buf data. getUint16 buf data 0) of
        Inl e \<Rightarrow> Inl e
      | Inr (payloadLength, s') \<Rightarrow>
          readElements s' (int payloadLength) 1 (\<lambda>bs. of_nat (be_nat bs)))"

definition TAG_Int_Array_readPayload :: "stream \<Rightarrow> error + (32 word list \<times> stream)" where
  "TAG_Int_Array_readPayload s =
     (case readView s 4 (\<lambda>buf data. getInt32 buf data 0) of
        Inl e \<Rightarrow> Inl e
      | Inr (payloadLength, s') \<Rightarrow> readElements s' payloadLength 4 (\<lambda>bs. of_nat (be_nat bs)))"

definition TAG_Long_Array_readPayload :: "stream \<Rightarrow> error + (64 word list \<times> stream)" where
  "TAG_Long_Array_readPayload s =
     (case readView s 4 (\<lambda>buf data. getInt32 buf data 0) of
        Inl e \<Rightarrow> Inl e
      | Inr (payloadLength, s') \<Rightarrow> readElements s' payloadLength 8 (\<lambda>bs. of_nat (be_nat bs)))"

text \<open>\<open>TAG_ID_TO_CLASS\<close>, and \<open>tagId in TAG_ID_TO_CLASS\<close> as \<open>TAG_ID_TO_CLASS tagId \<noteq> None\<close>.\<close>

datatype tagClass =
    C_End | C_Byte | C_Short | C_Int | C_Long | C_Float | C_Double | C_Byte_Array
  | C_String | C_List | C_Compound | C_Int_Array | C_Long_Array

definition TAG_ID_TO_CLASS :: "nat \<Rightarrow> tagClass option" where
  "TAG_ID_TO_CLASS tagId =
     (if tagId = 0 then Some C_End else if tagId = 1 then Some C_Byte
      else if tagId = 2 then Some C_Short else if tagId = 3 then Some C_Int
      else if tagId = 4 then Some C_Long else if tagId = 5 then Some C_Float
      else if tagId = 6 then Some C_Double else if tagId = 7 then Some C_Byte_Array
      else if tagId = 8 then Some C_String else if tagId = 9 then Some C_List
      else if tagId = 10 then Some C_Compound else if tagId = 11 then Some C_Int_Array
      else if tagId = 12 then Some C_Long_Array else None)"

text \<open>\<open>_getNBTName\<close>: the 16-bit name length, then that many bytes decoded as UTF-8.\<close>

definition getNBTName :: "stream \<Rightarrow> error + ((jsstring \<times> nat) \<times> stream)" where
  "getNBTName s =
     (case readView s 2 (\<lambda>buf data. getUint16 buf data 0) of
        Inl e \<Rightarrow> Inl e
      | Inr (nameLength, s') \<Rightarrow>
          (case readElements s' (int nameLength) 1 (\<lambda>bs. of_nat (be_nat bs)) of
             Inl e \<Rightarrow> Inl e
           | Inr (bytes, s'') \<Rightarrow> Inr ((utf8Decode bytes, nameLength), s'')))"

text \<open>
  Attaching the cursor to a constructed tag: the second half of
  \<open>new tagClass(nameLength, name, tagClass.readPayload(stream))\<close>.
\<close>

definition withStream :: "stream \<Rightarrow> error + tag \<Rightarrow> error + (tag \<times> stream)" where
  "withStream s r = (case r of Inl e \<Rightarrow> Inl e | Inr t \<Rightarrow> Inr (t, s))"

text \<open>
  \<open>parseNBT\<close> and the two recursive \<open>readPayload\<close>s. \<open>construct tagClass nl n s\<close> is
  \<open>new tagClass(nl, n, tagClass.readPayload(s))\<close>: the payload is read first, then the
  constructor runs, with all its checks. \<open>TAG_List_readPayload_loop\<close> is the \<open>for\<close>
  loop of \<open>TAG_List.readPayload\<close>, entered with the entry of the table for the element
  type, which is \<open>undefined\<close> (\<open>None\<close>) for an unknown id: reading \<open>readPayload\<close> off
  it is a \<open>TypeError\<close>. \<open>new Array(payloadLength)\<close> is a \<open>RangeError\<close> for a negative
  length. \<open>TAG_Compound_readPayload\<close> is the \<open>do ... while\<close> loop.
\<close>

function (sequential) parseNBT :: "stream \<Rightarrow> error + (tag \<times> stream)"
  and construct :: "tagClass \<Rightarrow> jsnumber \<Rightarrow> jsstring \<Rightarrow> stream \<Rightarrow> error + (tag \<times> stream)"
  and TAG_List_readPayload :: "stream \<Rightarrow> error + ((jsnumber \<times> tag list) \<times> stream)"
  and TAG_List_readPayload_loop ::
    "tagClass option \<Rightarrow> nat \<Rightarrow> stream \<Rightarrow> error + (tag list \<times> stream)"
  and TAG_Compound_readPayload :: "stream \<Rightarrow> error + (tag list \<times> stream)" where
  "parseNBT s =
     (if length (buffer s) \<le> byteOffset s then Inl ReachedEndOfBuffer
      else case readView s 1 (\<lambda>buf data. getUint8 buf data 0) of
        Inl e \<Rightarrow> Inl e
      | Inr (tagId, s1) \<Rightarrow>
          (case (if tagId \<noteq> 0 then getNBTName s1 else Inr (([], 0), s1)) of
             Inl e \<Rightarrow> Inl e
           | Inr ((name, nameLength), s2) \<Rightarrow>
               (case TAG_ID_TO_CLASS tagId of
                  None \<Rightarrow> Inl UnexpectedTagType
                | Some tagClass \<Rightarrow> construct tagClass (num nameLength) name s2)))"
| "construct C_End nl n s = withStream s (new_TAG_End nl n)"
| "construct C_Byte nl n s =
     (case TAG_Byte_readPayload s of
        Inl e \<Rightarrow> Inl e | Inr (p, s') \<Rightarrow> withStream s' (new_TAG_Byte nl n p))"
| "construct C_Short nl n s =
     (case TAG_Short_readPayload s of
        Inl e \<Rightarrow> Inl e | Inr (p, s') \<Rightarrow> withStream s' (new_TAG_Short nl n p))"
| "construct C_Int nl n s =
     (case TAG_Int_readPayload s of
        Inl e \<Rightarrow> Inl e | Inr (p, s') \<Rightarrow> withStream s' (new_TAG_Int nl n p))"
| "construct C_Long nl n s =
     (case TAG_Long_readPayload s of
        Inl e \<Rightarrow> Inl e | Inr (p, s') \<Rightarrow> withStream s' (new_TAG_Long nl n p))"
| "construct C_Float nl n s =
     (case TAG_Float_readPayload s of
        Inl e \<Rightarrow> Inl e | Inr (p, s') \<Rightarrow> withStream s' (new_TAG_Float nl n p))"
| "construct C_Double nl n s =
     (case TAG_Double_readPayload s of
        Inl e \<Rightarrow> Inl e | Inr (p, s') \<Rightarrow> withStream s' (new_TAG_Double nl n p))"
| "construct C_Byte_Array nl n s =
     (case TAG_Byte_Array_readPayload s of
        Inl e \<Rightarrow> Inl e | Inr (p, s') \<Rightarrow> withStream s' (new_TAG_Byte_Array nl n p))"
| "construct C_String nl n s =
     (case TAG_String_readPayload s of
        Inl e \<Rightarrow> Inl e | Inr (p, s') \<Rightarrow> withStream s' (new_TAG_String nl n p))"
| "construct C_List nl n s =
     (case TAG_List_readPayload s of
        Inl e \<Rightarrow> Inl e
      | Inr ((tagType, payload), s') \<Rightarrow> withStream s' (new_TAG_List nl n tagType payload))"
| "construct C_Compound nl n s =
     (case TAG_Compound_readPayload s of
        Inl e \<Rightarrow> Inl e | Inr (p, s') \<Rightarrow> withStream s' (new_TAG_Compound nl n p))"
| "construct C_Int_Array nl n s =
     (case TAG_Int_Array_readPayload s of
        Inl e \<Rightarrow> Inl e | Inr (p, s') \<Rightarrow> withStream s' (new_TAG_Int_Array nl n p))"
| "construct C_Long_Array nl n s =
     (case TAG_Long_Array_readPayload s of
        Inl e \<Rightarrow> Inl e | Inr (p, s') \<Rightarrow> withStream s' (new_TAG_Long_Array nl n p))"
| "TAG_List_readPayload s =
     (case readView s 1 (\<lambda>buf data. getUint8 buf data 0) of
        Inl e \<Rightarrow> Inl e
      | Inr (tagType, s1) \<Rightarrow>
          (case readView s1 4 (\<lambda>buf data. getInt32 buf data 0) of
             Inl e \<Rightarrow> Inl e
           | Inr (payloadLength, s2) \<Rightarrow>
               if payloadLength < 0 then Inl RangeError
               else (case TAG_List_readPayload_loop (TAG_ID_TO_CLASS tagType)
                            (nat payloadLength) s2 of
                       Inl e \<Rightarrow> Inl e
                     | Inr (res, s3) \<Rightarrow> Inr ((num tagType, res), s3))))"
| "TAG_List_readPayload_loop tagClass 0 s = Inr ([], s)"
| "TAG_List_readPayload_loop tagClass (Suc k) s =
     (case tagClass of
        None \<Rightarrow> Inl TypeError
      | Some c \<Rightarrow>
          (case construct c (Finite 0) [] s of
             Inl e \<Rightarrow> Inl e
           | Inr (t, s') \<Rightarrow>
               (case TAG_List_readPayload_loop tagClass k s' of
                  Inl e \<Rightarrow> Inl e
                | Inr (res, s'') \<Rightarrow> Inr (t # res, s''))))"
| "TAG_Compound_readPayload s =
     (case parseNBT s of
        Inl e \<Rightarrow> Inl e
      | Inr (t, s') \<Rightarrow>
          if tag_id t \<noteq> 0 then
            (case TAG_Compound_readPayload s' of
               Inl e \<Rightarrow> Inl e
             | Inr (payload, s'') \<Rightarrow> Inr (t # payload, s''))
          else Inr ([t], s'))"
  by pat_completeness auto


text \<open>
  Termination: no call moves the cursor back, \<open>parseNBT\<close> moves it forward, and the
  buffer stays as it is.
\<close>

definition advances :: "stream \<Rightarrow> stream \<Rightarrow> bool" where
  "advances s s' = (buffer s' = buffer s \<and> byteOffset s \<le> byteOffset s')"

text \<open>
  Truncated input: \<open>truncate_at k s\<close> is the cursor \<open>s\<close> over the first \<open>k\<close> bytes of its
  buffer. The two errors a read beyond the buffer ends in are the decoder's own
  "Reached end of buffer" and the \<open>RangeError\<close> of a view that does not fit.
\<close>

definition truncate_at :: "nat \<Rightarrow> stream \<Rightarrow> stream" where
  "truncate_at k s = s\<lparr>buffer := take k (buffer s)\<rparr>"

definition truncation_error :: "error + 'a \<Rightarrow> bool" where
  "truncation_error r = (r = Inl RangeError \<or> r = Inl ReachedEndOfBuffer)"

text \<open>An accessor that looks at the bytes of its view only.\<close>

definition reads_view :: "(byte list \<Rightarrow> dataview \<Rightarrow> error + 'a) \<Rightarrow> bool" where
  "reads_view g =
     (\<forall>buf k d. dv_byteOffset d + dv_byteLength d \<le> k \<longrightarrow> g (take k buf) d = g buf d)"

section \<open>Termination of the decoder\<close>

lemma advances_refl [simp]: "advances s s"
  by (simp add: advances_def)

lemma advances_trans: "advances s s' \<Longrightarrow> advances s' s'' \<Longrightarrow> advances s s''"
  by (auto simp: advances_def)

lemma readView_Inr:
  "readView s len g = Inr (v, s') \<Longrightarrow>
     buffer s' = buffer s \<and> byteOffset s' = byteOffset s + len \<and> byteOffset s' \<le> length (buffer s)"
  by (auto simp: readView_def DataView_def split: sum.splits if_splits)

lemma readView_advances: "readView s len g = Inr (v, s') \<Longrightarrow> advances s s'"
  by (auto simp: advances_def dest: readView_Inr)

lemma readElements_Inr:
  "readElements s len sz conv = Inr (v, s') \<Longrightarrow>
     0 \<le> len \<and> buffer s' = buffer s \<and> byteOffset s' = byteOffset s + nat len * sz
     \<and> byteOffset s' \<le> length (buffer s)"
  by (auto simp: readElements_def DataView_def split: sum.splits if_splits)

lemma readElements_advances: "readElements s len sz conv = Inr (v, s') \<Longrightarrow> advances s s'"
  by (auto simp: advances_def dest: readElements_Inr)

lemma withStream_Inr: "withStream s r = Inr (t, s') \<Longrightarrow> s' = s \<and> r = Inr t"
  by (auto simp: withStream_def split: sum.splits)

lemma getNBTName_advances: "getNBTName s = Inr (v, s') \<Longrightarrow> advances s s'"
  by (auto simp: getNBTName_def split: sum.splits
      dest!: readView_advances readElements_advances intro: advances_trans)

lemma scalar_readPayload_advances:
  "TAG_Byte_readPayload s = Inr (a, s') \<Longrightarrow> advances s s'"
  "TAG_Short_readPayload s = Inr (a, s') \<Longrightarrow> advances s s'"
  "TAG_Int_readPayload s = Inr (a, s') \<Longrightarrow> advances s s'"
  "TAG_Long_readPayload s = Inr (b, s') \<Longrightarrow> advances s s'"
  "TAG_Float_readPayload s = Inr (a, s') \<Longrightarrow> advances s s'"
  "TAG_Double_readPayload s = Inr (a, s') \<Longrightarrow> advances s s'"
  by (auto simp: TAG_Byte_readPayload_def TAG_Short_readPayload_def TAG_Int_readPayload_def
      TAG_Long_readPayload_def TAG_Float_readPayload_def TAG_Double_readPayload_def
      dest: readView_advances)

lemma array_readPayload_advances:
  "TAG_Byte_Array_readPayload s = Inr (a, s') \<Longrightarrow> advances s s'"
  "TAG_String_readPayload s = Inr (a, s') \<Longrightarrow> advances s s'"
  "TAG_Int_Array_readPayload s = Inr (c, s') \<Longrightarrow> advances s s'"
  "TAG_Long_Array_readPayload s = Inr (d, s') \<Longrightarrow> advances s s'"
  by (auto simp: TAG_Byte_Array_readPayload_def TAG_String_readPayload_def
      TAG_Int_Array_readPayload_def TAG_Long_Array_readPayload_def split: sum.splits
      dest!: readView_advances readElements_advances intro: advances_trans)

lemmas parse_pinduct = parseNBT_construct_TAG_List_readPayload_TAG_List_readPayload_loop_TAG_Compound_readPayload.pinduct

lemma parse_advances_dom:
  "parseNBT_construct_TAG_List_readPayload_TAG_List_readPayload_loop_TAG_Compound_readPayload_dom (Inl (Inl s)) \<Longrightarrow>
     (\<forall>t s'. parseNBT s = Inr (t, s') \<longrightarrow>
        buffer s' = buffer s \<and> byteOffset s < byteOffset s' \<and> byteOffset s < length (buffer s))"
  "parseNBT_construct_TAG_List_readPayload_TAG_List_readPayload_loop_TAG_Compound_readPayload_dom (Inl (Inr (c, nl, n, s2))) \<Longrightarrow>
     (\<forall>t s'. construct c nl n s2 = Inr (t, s') \<longrightarrow> advances s2 s')"
  "parseNBT_construct_TAG_List_readPayload_TAG_List_readPayload_loop_TAG_Compound_readPayload_dom (Inr (Inl s3)) \<Longrightarrow>
     (\<forall>x s'. TAG_List_readPayload s3 = Inr (x, s') \<longrightarrow> advances s3 s')"
  "parseNBT_construct_TAG_List_readPayload_TAG_List_readPayload_loop_TAG_Compound_readPayload_dom (Inr (Inr (Inl (co, k, s4)))) \<Longrightarrow>
     (\<forall>ts s'. TAG_List_readPayload_loop co k s4 = Inr (ts, s') \<longrightarrow> advances s4 s')"
  "parseNBT_construct_TAG_List_readPayload_TAG_List_readPayload_loop_TAG_Compound_readPayload_dom (Inr (Inr (Inr s5))) \<Longrightarrow>
     (\<forall>ts s'. TAG_Compound_readPayload s5 = Inr (ts, s') \<longrightarrow> advances s5 s')"
proof (induct rule: parse_pinduct)
  case (1 s)
  show ?case
  proof (intro allI impI)
    fix t s' assume eq: "parseNBT s = Inr (t, s')"
    note ps = parseNBT.psimps [OF 1(1)]
    from eq ps obtain tagId s1 nm nl s2 c where
      nz: "\<not> length (buffer s) \<le> byteOffset s"
      and rv: "readView s 1 (\<lambda>buf data. getUint8 buf data 0) = Inr (tagId, s1)"
      and nam: "(if tagId \<noteq> 0 then getNBTName s1 else Inr (([], 0), s1)) = Inr ((nm, nl), s2)"
      and cls: "TAG_ID_TO_CLASS tagId = Some c"
      and con: "construct c (num nl) nm s2 = Inr (t, s')"
      by (auto split: if_splits sum.splits option.splits prod.splits)
    from 1(2) [OF nz rv refl nam refl refl cls] con have a3: "advances s2 s'" by blast
    from rv have a1: "buffer s1 = buffer s" "byteOffset s1 = byteOffset s + 1"
      by (auto dest: readView_Inr)
    from nam have a2: "advances s1 s2"
      by (auto split: if_splits dest: getNBTName_advances)
    from nz a1 a2 a3
    show "buffer s' = buffer s \<and> byteOffset s < byteOffset s' \<and> byteOffset s < length (buffer s)"
      by (auto simp: advances_def)
  qed
next
  case (2 nl n s)
  then show ?case
    by (auto simp: construct.psimps dest!: withStream_Inr)
next
  case (3 nl n s)
  then show ?case
    by (auto simp: construct.psimps split: sum.splits dest!: withStream_Inr scalar_readPayload_advances)
next
  case (4 nl n s)
  then show ?case
    by (auto simp: construct.psimps split: sum.splits dest!: withStream_Inr scalar_readPayload_advances)
next
  case (5 nl n s)
  then show ?case
    by (auto simp: construct.psimps split: sum.splits dest!: withStream_Inr scalar_readPayload_advances)
next
  case (6 nl n s)
  then show ?case
    by (auto simp: construct.psimps split: sum.splits dest!: withStream_Inr scalar_readPayload_advances)
next
  case (7 nl n s)
  then show ?case
    by (auto simp: construct.psimps split: sum.splits dest!: withStream_Inr scalar_readPayload_advances)
next
  case (8 nl n s)
  then show ?case
    by (auto simp: construct.psimps split: sum.splits dest!: withStream_Inr scalar_readPayload_advances)
next
  case (9 nl n s)
  then show ?case
    by (auto simp: construct.psimps split: sum.splits dest!: withStream_Inr array_readPayload_advances)
next
  case (10 nl n s)
  then show ?case
    by (auto simp: construct.psimps split: sum.splits dest!: withStream_Inr array_readPayload_advances)
next
  case (11 nl n s)
  then show ?case
    by (auto simp: construct.psimps split: sum.splits dest!: withStream_Inr)
next
  case (12 nl n s)
  then show ?case
    by (auto simp: construct.psimps split: sum.splits dest!: withStream_Inr)
next
  case (13 nl n s)
  then show ?case
    by (auto simp: construct.psimps split: sum.splits dest!: withStream_Inr array_readPayload_advances)
next
  case (14 nl n s)
  then show ?case
    by (auto simp: construct.psimps split: sum.splits dest!: withStream_Inr array_readPayload_advances)
next
  case (15 s)
  show ?case
  proof (intro allI impI)
    fix x s' assume eq: "TAG_List_readPayload s = Inr (x, s')"
    note ps = TAG_List_readPayload.psimps [OF 15(1)]
    from eq ps obtain tagType s1 payloadLength s2 res where
      rv1: "readView s 1 (\<lambda>buf data. getUint8 buf data 0) = Inr (tagType, s1)"
      and rv2: "readView s1 4 (\<lambda>buf data. getInt32 buf data 0) = Inr (payloadLength, s2)"
      and nn: "\<not> payloadLength < 0"
      and lp: "TAG_List_readPayload_loop (TAG_ID_TO_CLASS tagType) (nat payloadLength) s2 = Inr (res, s')"
      by (auto split: if_splits sum.splits prod.splits)
    from 15(2) [OF rv1 refl rv2 refl nn] lp have "advances s2 s'" by blast
    with readView_advances [OF rv1] readView_advances [OF rv2] show "advances s s'"
      by (blast intro: advances_trans)
  qed
next
  case (16 tagClass s)
  then show ?case
    by (simp add: TAG_List_readPayload_loop.psimps)
next
  case (17 tagClass k s)
  then show ?case
    apply (simp add: TAG_List_readPayload_loop.psimps)
    apply (auto split: sum.splits option.splits intro: advances_trans)
    done
next
  case (18 s)
  show ?case
  proof (intro allI impI)
    fix ts s' assume eq: "TAG_Compound_readPayload s = Inr (ts, s')"
    note ps = TAG_Compound_readPayload.psimps [OF 18(1)]
    from eq ps obtain t s1 where p: "parseNBT s = Inr (t, s1)"
      by (auto split: sum.splits)
    with 18(2) have a1: "advances s s1" by (auto simp: advances_def)
    show "advances s s'"
    proof (cases "tag_id t \<noteq> 0")
      case True
      with eq ps p obtain payload where r: "TAG_Compound_readPayload s1 = Inr (payload, s')"
        by (auto split: sum.splits)
      from 18(3) [OF p refl True] r have "advances s1 s'" by blast
      with a1 show ?thesis by (blast intro: advances_trans)
    next
      case False
      with eq ps p have "s' = s1" by simp
      with a1 show ?thesis by simp
    qed
  qed
qed

termination parseNBT
proof (relation "inv_image (less_than <*lex*> less_than <*lex*> less_than)
     (\<lambda>x. case x of
         Inl (Inl s) \<Rightarrow> (length (buffer s) - byteOffset s, 0::nat, 0::nat)
       | Inl (Inr (c, nl, n, s)) \<Rightarrow> (length (buffer s) - byteOffset s, 2, 0)
       | Inr (Inl s) \<Rightarrow> (length (buffer s) - byteOffset s, 1, 0)
       | Inr (Inr (Inl (c, k, s))) \<Rightarrow> (length (buffer s) - byteOffset s, 3, k)
       | Inr (Inr (Inr s)) \<Rightarrow> (length (buffer s) - byteOffset s, 1, 0))", goal_cases)
  case 1
  show ?case by (intro wf_inv_image wf_lex_prod wf_less_than)
next
  case (2 s b tagId s1 ba xa s2 nm nl c)
  from 2(2,3) have a1: "buffer s1 = buffer s" "byteOffset s1 = byteOffset s + 1"
    by (auto dest: readView_Inr)
  from 2(4,5,6) have "advances s1 s2"
    by (auto split: if_splits dest: getNBTName_advances)
  with a1 2(1) show ?case by (auto simp: advances_def)
next
  case (5 s b tagType s1 ba payloadLength s2)
  from 5(1,2) have a1: "buffer s1 = buffer s" "byteOffset s1 = byteOffset s + 1"
    by (auto dest: readView_Inr)
  from 5(3,4) have "buffer s2 = buffer s1" "byteOffset s2 = byteOffset s1 + 4"
    "byteOffset s2 \<le> length (buffer s1)"
    by (auto dest: readView_Inr)
  with a1 show ?case by auto
next
  case (7 tagClass k s c b t s')
  from parse_advances_dom(2) [OF 7(4)] 7(2,3) have "advances s s'" by auto
  then show ?case by (auto simp: advances_def)
next
  case (9 s b t s')
  from parse_advances_dom(1) [OF 9(4)] 9(1,2)
  have "buffer s' = buffer s \<and> byteOffset s < byteOffset s' \<and> byteOffset s < length (buffer s)"
    by auto
  then show ?case by auto
qed simp_all


declare parseNBT.simps [simp del]
declare TAG_List_readPayload.simps [simp del]
declare TAG_Compound_readPayload.simps [simp del]

section \<open>Evaluation\<close>

text \<open>The definitions by group, for evaluating the operations on concrete inputs.\<close>

lemmas num_defs = pow2_def bias_def num_def int_num_def BigInt_def

lemmas str_defs = is_high_surrogate_def is_low_surrogate_def lone_unit_def utf8_bytes_def
  utf8Encode_def utf16_units_def utf8Decode_def

lemmas dv_defs = DataView_def dv_get_def dv_set_def be16_def be32_def be64_def be_nat_def
  setUint8_def setInt8_def setUint16_def setInt16_def setUint32_def setInt32_def setBigInt64_def
  setFloat32_def setFloat64_def getUint8_def getInt8_def getUint16_def getInt16_def getInt32_def
  getBigInt64_def getFloat32_def getFloat64_def

lemmas new_defs = new_TAG_End_def new_TAG_Byte_def new_TAG_Short_def new_TAG_Int_def
  new_TAG_Float_def new_TAG_Double_def new_TAG_Byte_Array_def new_TAG_String_def
  new_TAG_List_def new_TAG_Compound_def new_TAG_Int_Array_def new_TAG_Long_Array_def
  sumTotalLength_def getTotalLength_def headerLength_def

lemmas enc_defs = writeHeader_def writeView_def storeArray_def toBytes_def

lemmas dec_defs = readView_def readElements_def TAG_Byte_readPayload_def
  TAG_Short_readPayload_def TAG_Int_readPayload_def TAG_Long_readPayload_def
  TAG_Float_readPayload_def TAG_Double_readPayload_def TAG_Byte_Array_readPayload_def
  TAG_String_readPayload_def TAG_Int_Array_readPayload_def TAG_Long_Array_readPayload_def
  TAG_ID_TO_CLASS_def getNBTName_def withStream_def parseNBT.simps TAG_List_readPayload.simps
  TAG_Compound_readPayload.simps

lemma floor_rat_divide_numeral:
  "\<lfloor>(numeral a :: rat) / numeral b\<rfloor> = numeral a div numeral b"
  "\<lfloor>- (numeral a :: rat) / numeral b\<rfloor> = - numeral a div numeral b"
  "\<lfloor>(1 :: rat) / numeral b\<rfloor> = 1 div numeral b"
  using floor_divide_of_int_eq [of "numeral a" "numeral b", where ?'a = rat]
    floor_divide_of_int_eq [of "- numeral a" "numeral b", where ?'a = rat]
    floor_divide_of_int_eq [of 1 "numeral b", where ?'a = rat]
  by simp_all

lemma bitlength_numeral:
  "bitlength 0 = 0"
  "bitlength (Suc 0) = 1"
  "bitlength 1 = 1"
  "bitlength (numeral k) = Suc (bitlength (numeral k div 2))"
  by (simp_all add: bitlength.simps [of 0] bitlength.simps [of "Suc 0"] bitlength.simps [of 1]
      bitlength.simps [of "numeral k"])

subsection \<open>The bounds of the Long constructor\<close>

text \<open>
  9223372036854775807 is not a double. It lies between the doubles \<open>2 ^ 63 - 1024\<close> and
  \<open>2 ^ 63\<close> and rounds to the nearer one: the literal denotes \<open>2 ^ 63\<close>.
\<close>

lemma ilog2_max_literal: "ilog2 9223372036854775807 = 62"
  by (simp add: ilog2_def pow2_def bitlength_numeral)

lemma round_max_literal: "round_half_even (9223372036854775807 / 1024) = 9007199254740992"
  by (simp add: round_half_even_def Let_def floor_rat_divide_numeral)

lemma encode_max_literal:
  "ieee_encode 52 11 (Finite 9223372036854775807) = 4890909195324358656"
  by (simp add: ieee_encode_def ilog2_max_literal round_max_literal bias_def pow2_def Let_def)

lemma decode_max_literal:
  "ieee_decode 52 11 4890909195324358656 = Finite 9223372036854775808"
  by (simp add: ieee_decode_def bias_def pow2_def Let_def)

lemma number_literal_max: "number_literal 9223372036854775807 = Finite 9223372036854775808"
  by (simp add: number_literal_def encode_max_literal decode_max_literal)

lemma ilog2_min_literal: "ilog2 9223372036854775808 = 63"
  by (simp add: ilog2_def pow2_def bitlength_numeral)

lemma round_min_literal: "round_half_even 4503599627370496 = 4503599627370496"
  by (simp add: round_half_even_def Let_def)

lemma encode_min_literal:
  "ieee_encode 52 11 (Finite (- 9223372036854775808)) = 14114281232179134464"
  by (simp add: ieee_encode_def ilog2_min_literal round_min_literal bias_def pow2_def Let_def)

lemma decode_min_literal:
  "ieee_decode 52 11 14114281232179134464 = Finite (- 9223372036854775808)"
  by (simp add: ieee_decode_def bias_def pow2_def Let_def)

lemma number_literal_min:
  "number_literal (- 9223372036854775808) = Finite (- 9223372036854775808)"
  by (simp add: number_literal_def encode_min_literal decode_min_literal)

text \<open>The Long constructor accepts the integers from \<open>- 2 ^ 63\<close> to \<open>2 ^ 63\<close>, both included.\<close>

lemma new_TAG_Long_eq:
  "new_TAG_Long nl n payload =
     (if payload > 9223372036854775808 \<or> payload < - 9223372036854775808
      then Inl InvalidPayload else Inr (TAG_Long nl n payload))"
  by (simp add: new_TAG_Long_def number_literal_max number_literal_min BigInt_def)

subsection \<open>The patterns of 2.0: \<open>0x40000000\<close> and \<open>0x4000000000000000\<close>\<close>

lemma decode_float_two: "ieee_decode 23 8 1073741824 = Finite 2"
  by (simp add: ieee_decode_def bias_def pow2_def)

lemma decode_double_two: "ieee_decode 52 11 4611686018427387904 = Finite 2"
  by (simp add: ieee_decode_def bias_def pow2_def)

subsection \<open>The names \<open>"a"\<close> and \<open>"abc"\<close>\<close>

lemma utf8Encode_a: "utf8Encode [0x61] = [0x61]"
  by (simp add: str_defs)

lemma utf8Decode_a: "utf8Decode [0x61] = [0x61]"
  by (simp add: str_defs)

lemma utf8Encode_abc: "utf8Encode [0x61, 0x62, 0x63] = [0x61, 0x62, 0x63]"
  by (simp add: str_defs)

section \<open>The decoder and the extent of the buffer\<close>

text \<open>
  Every successful call leaves the buffer as it is and the cursor where it was or further;
  \<open>parseNBT\<close> consumes at least one byte.
\<close>

lemmas parse_induct =
  parseNBT_construct_TAG_List_readPayload_TAG_List_readPayload_loop_TAG_Compound_readPayload.induct

lemma parse_advances:
  "\<forall>t s'. parseNBT s = Inr (t, s') \<longrightarrow>
     buffer s' = buffer s \<and> byteOffset s < byteOffset s' \<and> byteOffset s < length (buffer s)"
  "\<forall>t s'. construct c nl n s2 = Inr (t, s') \<longrightarrow> advances s2 s'"
  "\<forall>x s'. TAG_List_readPayload s3 = Inr (x, s') \<longrightarrow> advances s3 s'"
  "\<forall>ts s'. TAG_List_readPayload_loop co k s4 = Inr (ts, s') \<longrightarrow> advances s4 s'"
  "\<forall>ts s'. TAG_Compound_readPayload s5 = Inr (ts, s') \<longrightarrow> advances s5 s'"
proof (induct s and c nl n s2 and s3 and co k s4 and s5 rule: parse_induct)
  case (1 s)
  show ?case
  proof (intro allI impI)
    fix t s' assume eq: "parseNBT s = Inr (t, s')"
    from eq obtain tagId s1 nm nl s2 c where
      nz: "\<not> length (buffer s) \<le> byteOffset s"
      and rv: "readView s 1 (\<lambda>buf data. getUint8 buf data 0) = Inr (tagId, s1)"
      and nam: "(if tagId \<noteq> 0 then getNBTName s1 else Inr (([], 0), s1)) = Inr ((nm, nl), s2)"
      and cls: "TAG_ID_TO_CLASS tagId = Some c"
      and con: "construct c (num nl) nm s2 = Inr (t, s')"
      by (auto simp: parseNBT.simps [of s] split: if_splits sum.splits option.splits prod.splits)
    from 1 [OF nz rv refl nam refl refl cls] con have a3: "advances s2 s'" by blast
    from rv have a1: "buffer s1 = buffer s" "byteOffset s1 = byteOffset s + 1"
      by (auto dest: readView_Inr)
    from nam have a2: "advances s1 s2"
      by (auto split: if_splits dest: getNBTName_advances)
    from nz a1 a2 a3
    show "buffer s' = buffer s \<and> byteOffset s < byteOffset s' \<and> byteOffset s < length (buffer s)"
      by (auto simp: advances_def)
  qed
next
  case (2 nl n s)
  then show ?case by (auto dest!: withStream_Inr)
next
  case (3 nl n s)
  then show ?case by (auto split: sum.splits dest!: withStream_Inr scalar_readPayload_advances)
next
  case (4 nl n s)
  then show ?case by (auto split: sum.splits dest!: withStream_Inr scalar_readPayload_advances)
next
  case (5 nl n s)
  then show ?case by (auto split: sum.splits dest!: withStream_Inr scalar_readPayload_advances)
next
  case (6 nl n s)
  then show ?case by (auto split: sum.splits dest!: withStream_Inr scalar_readPayload_advances)
next
  case (7 nl n s)
  then show ?case by (auto split: sum.splits dest!: withStream_Inr scalar_readPayload_advances)
next
  case (8 nl n s)
  then show ?case by (auto split: sum.splits dest!: withStream_Inr scalar_readPayload_advances)
next
  case (9 nl n s)
  then show ?case by (auto split: sum.splits dest!: withStream_Inr array_readPayload_advances)
next
  case (10 nl n s)
  then show ?case by (auto split: sum.splits dest!: withStream_Inr array_readPayload_advances)
next
  case (11 nl n s)
  then show ?case by (auto split: sum.splits dest!: withStream_Inr)
next
  case (12 nl n s)
  then show ?case by (auto split: sum.splits dest!: withStream_Inr)
next
  case (13 nl n s)
  then show ?case by (auto split: sum.splits dest!: withStream_Inr array_readPayload_advances)
next
  case (14 nl n s)
  then show ?case by (auto split: sum.splits dest!: withStream_Inr array_readPayload_advances)
next
  case (15 s)
  show ?case
  proof (intro allI impI)
    fix x s' assume eq: "TAG_List_readPayload s = Inr (x, s')"
    from eq obtain tagType s1 payloadLength s2 res where
      rv1: "readView s 1 (\<lambda>buf data. getUint8 buf data 0) = Inr (tagType, s1)"
      and rv2: "readView s1 4 (\<lambda>buf data. getInt32 buf data 0) = Inr (payloadLength, s2)"
      and nn: "\<not> payloadLength < 0"
      and lp: "TAG_List_readPayload_loop (TAG_ID_TO_CLASS tagType) (nat payloadLength) s2 = Inr (res, s')"
      by (auto simp: TAG_List_readPayload.simps [of s] split: if_splits sum.splits prod.splits)
    from 15 [OF rv1 refl rv2 refl nn] lp have "advances s2 s'" by blast
    with readView_advances [OF rv1] readView_advances [OF rv2] show "advances s s'"
      by (blast intro: advances_trans)
  qed
next
  case (16 tagClass s)
  then show ?case by simp
next
  case (17 tagClass k s)
  then show ?case
    by (auto split: sum.splits option.splits intro: advances_trans)
next
  case (18 s)
  show ?case
  proof (intro allI impI)
    fix ts s' assume eq: "TAG_Compound_readPayload s = Inr (ts, s')"
    note ps = TAG_Compound_readPayload.simps [of s]
    from eq ps obtain t s1 where p: "parseNBT s = Inr (t, s1)"
      by (auto split: sum.splits)
    with 18(1) have a1: "advances s s1" by (auto simp: advances_def)
    show "advances s s'"
    proof (cases "tag_id t \<noteq> 0")
      case True
      with eq ps p obtain payload where r: "TAG_Compound_readPayload s1 = Inr (payload, s')"
        by (auto split: sum.splits)
      from 18(2) [OF p refl True] r have "advances s1 s'" by blast
      with a1 show ?thesis by (blast intro: advances_trans)
    next
      case False
      with eq ps p have "s' = s1" by simp
      with a1 show ?thesis by simp
    qed
  qed
qed


text \<open>
  Decoding over a prefix of the buffer. When the prefix holds every byte a successful call
  consumed, the call gives the same result over the prefix. When it does not, the call
  over the prefix fails with a \<open>RangeError\<close>, or, where the prefix ends at the start of a
  tag, with "Reached end of buffer".
\<close>

lemma truncate_at_simps [simp]:
  "buffer (truncate_at k s) = take k (buffer s)"
  "byteOffset (truncate_at k s) = byteOffset s"
  "truncate_at k (s\<lparr>byteOffset := j\<rparr>) = (truncate_at k s)\<lparr>byteOffset := j\<rparr>"
  by (simp_all add: truncate_at_def)

lemma take_drop_take: "i + n \<le> k \<Longrightarrow> take n (drop i (take k xs)) = take n (drop i xs)"
  by (simp add: drop_take min_def)

lemma dv_get_cut:
  "dv_byteOffset d + dv_byteLength d \<le> k \<Longrightarrow> dv_get (take k buf) d pos n = dv_get buf d pos n"
  by (simp add: dv_get_def take_drop_take)

lemma reads_view_getters:
  "reads_view (\<lambda>buf data. getUint8 buf data 0)"
  "reads_view (\<lambda>buf data. getUint16 buf data 0)"
  "reads_view (\<lambda>buf data. getInt32 buf data 0)"
  "reads_view (\<lambda>buf data. getBigInt64 buf data 0)"
  "reads_view (\<lambda>buf data. getFloat32 buf data 0)"
  "reads_view (\<lambda>buf data. getFloat64 buf data 0)"
  "reads_view (\<lambda>buf data. map_sum id int_num (getInt8 buf data 0))"
  "reads_view (\<lambda>buf data. map_sum id int_num (getInt16 buf data 0))"
  "reads_view (\<lambda>buf data. map_sum id int_num (getInt32 buf data 0))"
  by (simp_all add: reads_view_def getUint8_def getUint16_def getInt32_def getBigInt64_def
      getFloat32_def getFloat64_def getInt8_def getInt16_def dv_get_cut)

lemma readView_cut:
  assumes "reads_view g" and "readView s len g = Inr (v, s')"
  shows "(byteOffset s' \<le> k \<longrightarrow> readView (truncate_at k s) len g = Inr (v, truncate_at k s'))
       \<and> (k < byteOffset s' \<longrightarrow> readView (truncate_at k s) len g = Inl RangeError)"
proof -
  from assms(2) obtain data where
    d: "DataView (buffer s) (byteOffset s) len = Inr data"
    and gv: "g (buffer s) data = Inr v"
    and s': "s' = s\<lparr>byteOffset := byteOffset s + len\<rparr>"
    by (auto simp: readView_def split: sum.splits)
  from d have fit: "byteOffset s + len \<le> length (buffer s)"
    and data: "data = \<lparr>dv_byteOffset = byteOffset s, dv_byteLength = len\<rparr>"
    by (auto simp: DataView_def split: if_splits)
  show ?thesis
  proof (intro conjI impI)
    assume "byteOffset s' \<le> k"
    with s' have k: "byteOffset s + len \<le> k" by simp
    with fit have "DataView (take k (buffer s)) (byteOffset s) len = Inr data"
      by (simp add: DataView_def data)
    moreover from assms(1) k have "g (take k (buffer s)) data = g (buffer s) data"
      by (simp add: reads_view_def data)
    ultimately show "readView (truncate_at k s) len g = Inr (v, truncate_at k s')"
      by (simp add: readView_def gv s')
  next
    assume "k < byteOffset s'"
    with s' have "\<not> byteOffset s + len \<le> k" by simp
    then show "readView (truncate_at k s) len g = Inl RangeError"
      by (simp add: readView_def DataView_def)
  qed
qed

lemma readElements_cut:
  assumes "readElements s len sz conv = Inr (v, s')"
  shows "(byteOffset s' \<le> k \<longrightarrow> readElements (truncate_at k s) len sz conv = Inr (v, truncate_at k s'))
       \<and> (k < byteOffset s' \<longrightarrow> readElements (truncate_at k s) len sz conv = Inl RangeError)"
proof -
  from assms have nn: "\<not> len < 0"
    and fit: "byteOffset s + nat len * sz \<le> length (buffer s)"
    and v: "v = map (\<lambda>i. conv (take sz (drop (byteOffset s + sz * i) (buffer s)))) [0..<nat len]"
    and s': "s' = s\<lparr>byteOffset := byteOffset s + nat len * sz\<rparr>"
    by (auto simp: readElements_def DataView_def split: sum.splits if_splits)
  show ?thesis
  proof (intro conjI impI)
    assume "byteOffset s' \<le> k"
    with s' have k: "byteOffset s + nat len * sz \<le> k" by simp
    have "\<And>i. i < nat len \<Longrightarrow>
        take sz (drop (byteOffset s + sz * i) (take k (buffer s)))
        = take sz (drop (byteOffset s + sz * i) (buffer s))"
    proof (rule take_drop_take)
      fix i assume "i < nat len"
      then have "Suc i \<le> nat len" by simp
      then have "sz * Suc i \<le> sz * nat len" by (rule mult_le_mono2)
      with k show "byteOffset s + sz * i + sz \<le> k" by (simp add: mult.commute)
    qed
    with nn fit k show "readElements (truncate_at k s) len sz conv = Inr (v, truncate_at k s')"
      by (simp add: readElements_def DataView_def v s')
  next
    assume "k < byteOffset s'"
    with s' have "\<not> byteOffset s + nat len * sz \<le> k" by simp
    with nn show "readElements (truncate_at k s) len sz conv = Inl RangeError"
      by (simp add: readElements_def DataView_def)
  qed
qed


lemma scalar_readPayload_cut:
  "TAG_Byte_readPayload s = Inr (a, s') \<Longrightarrow>
     (byteOffset s' \<le> k \<longrightarrow> TAG_Byte_readPayload (truncate_at k s) = Inr (a, truncate_at k s'))
     \<and> (k < byteOffset s' \<longrightarrow> TAG_Byte_readPayload (truncate_at k s) = Inl RangeError)"
  "TAG_Short_readPayload s = Inr (a, s') \<Longrightarrow>
     (byteOffset s' \<le> k \<longrightarrow> TAG_Short_readPayload (truncate_at k s) = Inr (a, truncate_at k s'))
     \<and> (k < byteOffset s' \<longrightarrow> TAG_Short_readPayload (truncate_at k s) = Inl RangeError)"
  "TAG_Int_readPayload s = Inr (a, s') \<Longrightarrow>
     (byteOffset s' \<le> k \<longrightarrow> TAG_Int_readPayload (truncate_at k s) = Inr (a, truncate_at k s'))
     \<and> (k < byteOffset s' \<longrightarrow> TAG_Int_readPayload (truncate_at k s) = Inl RangeError)"
  "TAG_Long_readPayload s = Inr (b, s') \<Longrightarrow>
     (byteOffset s' \<le> k \<longrightarrow> TAG_Long_readPayload (truncate_at k s) = Inr (b, truncate_at k s'))
     \<and> (k < byteOffset s' \<longrightarrow> TAG_Long_readPayload (truncate_at k s) = Inl RangeError)"
  "TAG_Float_readPayload s = Inr (a, s') \<Longrightarrow>
     (byteOffset s' \<le> k \<longrightarrow> TAG_Float_readPayload (truncate_at k s) = Inr (a, truncate_at k s'))
     \<and> (k < byteOffset s' \<longrightarrow> TAG_Float_readPayload (truncate_at k s) = Inl RangeError)"
  "TAG_Double_readPayload s = Inr (a, s') \<Longrightarrow>
     (byteOffset s' \<le> k \<longrightarrow> TAG_Double_readPayload (truncate_at k s) = Inr (a, truncate_at k s'))
     \<and> (k < byteOffset s' \<longrightarrow> TAG_Double_readPayload (truncate_at k s) = Inl RangeError)"
  unfolding TAG_Byte_readPayload_def TAG_Short_readPayload_def TAG_Int_readPayload_def
    TAG_Long_readPayload_def TAG_Float_readPayload_def TAG_Double_readPayload_def
  by (rule readView_cut, rule reads_view_getters, assumption)+

text \<open>A length read through a view, then that many elements.\<close>

lemma counted_cut:
  assumes g: "reads_view g"
    and r: "(case readView s len g of Inl e \<Rightarrow> Inl e
             | Inr (n, s1) \<Rightarrow> readElements s1 (f n) sz conv) = Inr (v, s')"
  shows "(byteOffset s' \<le> k \<longrightarrow>
            (case readView (truncate_at k s) len g of Inl e \<Rightarrow> Inl e
             | Inr (n, s1) \<Rightarrow> readElements s1 (f n) sz conv) = Inr (v, truncate_at k s'))
       \<and> (k < byteOffset s' \<longrightarrow>
            (case readView (truncate_at k s) len g of Inl e \<Rightarrow> Inl e
             | Inr (n, s1) \<Rightarrow> readElements s1 (f n) sz conv) = Inl RangeError)"
proof -
  from r obtain n s1 where rv: "readView s len g = Inr (n, s1)"
    and re: "readElements s1 (f n) sz conv = Inr (v, s')"
    by (auto split: sum.splits)
  from readElements_Inr [OF re] have le: "byteOffset s1 \<le> byteOffset s'" by simp
  note c1 = readView_cut [OF g rv, of k] and c2 = readElements_cut [OF re, of k]
  show ?thesis
  proof (intro conjI impI)
    assume "byteOffset s' \<le> k"
    with le c1 c2 show "(case readView (truncate_at k s) len g of Inl e \<Rightarrow> Inl e
             | Inr (n, s1) \<Rightarrow> readElements s1 (f n) sz conv) = Inr (v, truncate_at k s')"
      by simp
  next
    assume k: "k < byteOffset s'"
    show "(case readView (truncate_at k s) len g of Inl e \<Rightarrow> Inl e
             | Inr (n, s1) \<Rightarrow> readElements s1 (f n) sz conv) = Inl RangeError"
    proof (cases "k < byteOffset s1")
      case True
      with c1 show ?thesis by simp
    next
      case False
      with c1 c2 k show ?thesis by simp
    qed
  qed
qed

lemma array_readPayload_cut:
  "TAG_Byte_Array_readPayload s = Inr (a, s') \<Longrightarrow>
     (byteOffset s' \<le> k \<longrightarrow> TAG_Byte_Array_readPayload (truncate_at k s) = Inr (a, truncate_at k s'))
     \<and> (k < byteOffset s' \<longrightarrow> TAG_Byte_Array_readPayload (truncate_at k s) = Inl RangeError)"
  "TAG_String_readPayload s = Inr (a, s') \<Longrightarrow>
     (byteOffset s' \<le> k \<longrightarrow> TAG_String_readPayload (truncate_at k s) = Inr (a, truncate_at k s'))
     \<and> (k < byteOffset s' \<longrightarrow> TAG_String_readPayload (truncate_at k s) = Inl RangeError)"
  "TAG_Int_Array_readPayload s = Inr (c, s') \<Longrightarrow>
     (byteOffset s' \<le> k \<longrightarrow> TAG_Int_Array_readPayload (truncate_at k s) = Inr (c, truncate_at k s'))
     \<and> (k < byteOffset s' \<longrightarrow> TAG_Int_Array_readPayload (truncate_at k s) = Inl RangeError)"
  "TAG_Long_Array_readPayload s = Inr (d, s') \<Longrightarrow>
     (byteOffset s' \<le> k \<longrightarrow> TAG_Long_Array_readPayload (truncate_at k s) = Inr (d, truncate_at k s'))
     \<and> (k < byteOffset s' \<longrightarrow> TAG_Long_Array_readPayload (truncate_at k s) = Inl RangeError)"
  unfolding TAG_Byte_Array_readPayload_def TAG_String_readPayload_def
    TAG_Int_Array_readPayload_def TAG_Long_Array_readPayload_def
  by (rule counted_cut, rule reads_view_getters, assumption)+

lemma getNBTName_cut:
  assumes "getNBTName s = Inr (v, s')"
  shows "(byteOffset s' \<le> k \<longrightarrow> getNBTName (truncate_at k s) = Inr (v, truncate_at k s'))
       \<and> (k < byteOffset s' \<longrightarrow> getNBTName (truncate_at k s) = Inl RangeError)"
proof -
  from assms obtain n s1 bytes where
    rv: "readView s 2 (\<lambda>buf data. getUint16 buf data 0) = Inr (n, s1)"
    and re: "readElements s1 (int n) 1 (\<lambda>bs. of_nat (be_nat bs)) = Inr (bytes, s')"
    and v: "v = (utf8Decode bytes, n)"
    by (auto simp: getNBTName_def split: sum.splits)
  from readElements_Inr [OF re] have le: "byteOffset s1 \<le> byteOffset s'" by simp
  note c1 = readView_cut [OF reads_view_getters(2) rv, of k]
    and c2 = readElements_cut [OF re, of k]
  show ?thesis
  proof (intro conjI impI)
    assume "byteOffset s' \<le> k"
    with le c1 c2 show "getNBTName (truncate_at k s) = Inr (v, truncate_at k s')"
      by (simp add: getNBTName_def v)
  next
    assume k: "k < byteOffset s'"
    show "getNBTName (truncate_at k s) = Inl RangeError"
    proof (cases "k < byteOffset s1")
      case True
      with c1 show ?thesis by (simp add: getNBTName_def)
    next
      case False
      with c1 c2 k show ?thesis by (simp add: getNBTName_def)
    qed
  qed
qed



lemma truncation_error_simps [simp]:
  "truncation_error (Inl RangeError)"
  "truncation_error (Inl ReachedEndOfBuffer)"
  "\<not> truncation_error (Inr x)"
  by (simp_all add: truncation_error_def)

lemma truncation_error_case:
  "truncation_error r \<Longrightarrow> truncation_error (case r of Inl e \<Rightarrow> Inl e | Inr x \<Rightarrow> f x)"
  by (auto simp: truncation_error_def)

lemma construct_reader_cut:
  assumes r: "\<And>a s'. rd s = Inr (a, s') \<Longrightarrow>
       (byteOffset s' \<le> k \<longrightarrow> rd (truncate_at k s) = Inr (a, truncate_at k s'))
       \<and> (k < byteOffset s' \<longrightarrow> rd (truncate_at k s) = Inl RangeError)"
    and e: "(case rd s of Inl e \<Rightarrow> Inl e | Inr (p, s1) \<Rightarrow> withStream s1 (mk p)) = Inr (t, s')"
  shows "(byteOffset s' \<le> k \<longrightarrow>
           (case rd (truncate_at k s) of Inl e \<Rightarrow> Inl e | Inr (p, s1) \<Rightarrow> withStream s1 (mk p))
           = Inr (t, truncate_at k s'))
       \<and> (k < byteOffset s' \<longrightarrow>
           truncation_error
             (case rd (truncate_at k s) of Inl e \<Rightarrow> Inl e | Inr (p, s1) \<Rightarrow> withStream s1 (mk p)))"
proof -
  from e obtain p where rp: "rd s = Inr (p, s')" and m: "mk p = Inr t"
    by (auto split: sum.splits dest!: withStream_Inr)
  from r [OF rp] m show ?thesis
    by (auto simp: withStream_def)
qed

lemma parse_cut:
  "\<forall>t s' k. parseNBT s = Inr (t, s') \<longrightarrow>
     (byteOffset s' \<le> k \<longrightarrow> parseNBT (truncate_at k s) = Inr (t, truncate_at k s'))
     \<and> (k < byteOffset s' \<longrightarrow> truncation_error (parseNBT (truncate_at k s)))"
  "\<forall>t s' k. construct c nl n s2 = Inr (t, s') \<longrightarrow>
     (byteOffset s' \<le> k \<longrightarrow> construct c nl n (truncate_at k s2) = Inr (t, truncate_at k s'))
     \<and> (byteOffset s2 \<le> k \<and> k < byteOffset s' \<longrightarrow>
          truncation_error (construct c nl n (truncate_at k s2)))"
  "\<forall>x s' k. TAG_List_readPayload s3 = Inr (x, s') \<longrightarrow>
     (byteOffset s' \<le> k \<longrightarrow> TAG_List_readPayload (truncate_at k s3) = Inr (x, truncate_at k s'))
     \<and> (byteOffset s3 \<le> k \<and> k < byteOffset s' \<longrightarrow>
          truncation_error (TAG_List_readPayload (truncate_at k s3)))"
  "\<forall>ts s' k. TAG_List_readPayload_loop co j s4 = Inr (ts, s') \<longrightarrow>
     (byteOffset s' \<le> k \<longrightarrow> TAG_List_readPayload_loop co j (truncate_at k s4) = Inr (ts, truncate_at k s'))
     \<and> (byteOffset s4 \<le> k \<and> k < byteOffset s' \<longrightarrow>
          truncation_error (TAG_List_readPayload_loop co j (truncate_at k s4)))"
  "\<forall>ts s' k. TAG_Compound_readPayload s5 = Inr (ts, s') \<longrightarrow>
     (byteOffset s' \<le> k \<longrightarrow> TAG_Compound_readPayload (truncate_at k s5) = Inr (ts, truncate_at k s'))
     \<and> (byteOffset s5 \<le> k \<and> k < byteOffset s' \<longrightarrow>
          truncation_error (TAG_Compound_readPayload (truncate_at k s5)))"
proof (induct s and c nl n s2 and s3 and co j s4 and s5 rule: parse_induct)
  case (1 s)
  show ?case
  proof (intro allI impI)
    fix t s' k assume eq: "parseNBT s = Inr (t, s')"
    from eq obtain tagId s1 nm nl s2 c where
      nz: "\<not> length (buffer s) \<le> byteOffset s"
      and rv: "readView s 1 (\<lambda>buf data. getUint8 buf data 0) = Inr (tagId, s1)"
      and nam: "(if tagId \<noteq> 0 then getNBTName s1 else Inr (([], 0), s1)) = Inr ((nm, nl), s2)"
      and cls: "TAG_ID_TO_CLASS tagId = Some c"
      and con: "construct c (num nl) nm s2 = Inr (t, s')"
      by (auto simp: parseNBT.simps [of s] split: if_splits sum.splits option.splits prod.splits)
    note IH = 1 [OF nz rv refl nam refl refl cls, rule_format, OF con, of k]
    from readView_Inr [OF rv] have o1: "byteOffset s1 = byteOffset s + 1" by simp
    from nam have a2: "advances s1 s2"
      by (auto split: if_splits dest: getNBTName_advances)
    from parse_advances(2) con have a3: "advances s2 s'" by blast
    from a2 a3 have le: "byteOffset s1 \<le> byteOffset s2" "byteOffset s2 \<le> byteOffset s'"
      by (simp_all add: advances_def)
    note c1 = readView_cut [OF reads_view_getters(1) rv, of k]
    have c2: "(byteOffset s2 \<le> k \<longrightarrow>
          (if tagId \<noteq> 0 then getNBTName (truncate_at k s1) else Inr (([], 0), truncate_at k s1))
          = Inr ((nm, nl), truncate_at k s2))
        \<and> (k < byteOffset s2 \<longrightarrow> byteOffset s1 \<le> k \<longrightarrow>
          (if tagId \<noteq> 0 then getNBTName (truncate_at k s1) else Inr (([], 0), truncate_at k s1))
          = Inl RangeError)"
    proof (cases "tagId \<noteq> 0")
      case True
      with nam getNBTName_cut [of s1 "(nm, nl)" s2 k] show ?thesis by simp
    next
      case False
      with nam show ?thesis by auto
    qed
    show "(byteOffset s' \<le> k \<longrightarrow> parseNBT (truncate_at k s) = Inr (t, truncate_at k s'))
        \<and> (k < byteOffset s' \<longrightarrow> truncation_error (parseNBT (truncate_at k s)))"
    proof (intro conjI impI)
      assume k: "byteOffset s' \<le> k"
      with le o1 nz have "\<not> length (buffer (truncate_at k s)) \<le> byteOffset (truncate_at k s)" by simp
      moreover from k le c1 have "readView (truncate_at k s) 1 (\<lambda>buf data. getUint8 buf data 0)
          = Inr (tagId, truncate_at k s1)" by simp
      moreover from k le c2 have
        "(if tagId \<noteq> 0 then getNBTName (truncate_at k s1) else Inr (([], 0), truncate_at k s1))
          = Inr ((nm, nl), truncate_at k s2)" by simp
      moreover from k IH have "construct c (num nl) nm (truncate_at k s2) = Inr (t, truncate_at k s')" by simp
      ultimately show "parseNBT (truncate_at k s) = Inr (t, truncate_at k s')"
        by (simp add: parseNBT.simps [of "truncate_at k s"] cls)
    next
      assume k: "k < byteOffset s'"
      show "truncation_error (parseNBT (truncate_at k s))"
      proof (cases "k \<le> byteOffset s")
        case True
        then have "length (buffer (truncate_at k s)) \<le> byteOffset (truncate_at k s)" by simp
        then show ?thesis by (simp add: parseNBT.simps [of "truncate_at k s"])
      next
        case False
        with nz have g: "\<not> length (buffer (truncate_at k s)) \<le> byteOffset (truncate_at k s)" by simp
        from False o1 c1 have r1: "readView (truncate_at k s) 1 (\<lambda>buf data. getUint8 buf data 0)
          = Inr (tagId, truncate_at k s1)" by simp
        show ?thesis
        proof (cases "k < byteOffset s2")
          case True
          with False o1 c2 have
            "(if tagId \<noteq> 0 then getNBTName (truncate_at k s1) else Inr (([], 0), truncate_at k s1))
              = Inl RangeError" by simp
          with g r1 show ?thesis by (simp add: parseNBT.simps [of "truncate_at k s"])
        next
          case False
          with c2 have
            "(if tagId \<noteq> 0 then getNBTName (truncate_at k s1) else Inr (([], 0), truncate_at k s1))
              = Inr ((nm, nl), truncate_at k s2)" by simp
          moreover from False k IH
          have "truncation_error (construct c (num nl) nm (truncate_at k s2))" by simp
          ultimately show ?thesis using g r1
            by (simp add: parseNBT.simps [of "truncate_at k s"] cls)
        qed
      qed
    qed
  qed
next
  case (2 nl n s)
  show ?case by (auto simp: withStream_def new_TAG_End_def)
next
  case (3 nl n s)
  show ?case
    using construct_reader_cut [where rd = TAG_Byte_readPayload and mk = "new_TAG_Byte nl n",
        OF scalar_readPayload_cut(1)]
    by simp
next
  case (4 nl n s)
  show ?case
    using construct_reader_cut [where rd = TAG_Short_readPayload and mk = "new_TAG_Short nl n",
        OF scalar_readPayload_cut(2)]
    by simp
next
  case (5 nl n s)
  show ?case
    using construct_reader_cut [where rd = TAG_Int_readPayload and mk = "new_TAG_Int nl n",
        OF scalar_readPayload_cut(3)]
    by simp
next
  case (6 nl n s)
  show ?case
    using construct_reader_cut [where rd = TAG_Long_readPayload and mk = "new_TAG_Long nl n",
        OF scalar_readPayload_cut(4)]
    by simp
next
  case (7 nl n s)
  show ?case
    using construct_reader_cut [where rd = TAG_Float_readPayload and mk = "new_TAG_Float nl n",
        OF scalar_readPayload_cut(5)]
    by simp
next
  case (8 nl n s)
  show ?case
    using construct_reader_cut [where rd = TAG_Double_readPayload and mk = "new_TAG_Double nl n",
        OF scalar_readPayload_cut(6)]
    by simp
next
  case (9 nl n s)
  show ?case
    using construct_reader_cut [where rd = TAG_Byte_Array_readPayload
        and mk = "new_TAG_Byte_Array nl n", OF array_readPayload_cut(1)]
    by simp
next
  case (10 nl n s)
  show ?case
    using construct_reader_cut [where rd = TAG_String_readPayload
        and mk = "new_TAG_String nl n", OF array_readPayload_cut(2)]
    by simp
next
  case (11 nl n s)
  show ?case
  proof (intro allI impI)
    fix t s' k assume eq: "construct C_List nl n s = Inr (t, s')"
    then obtain tt p where rp: "TAG_List_readPayload s = Inr ((tt, p), s')"
      and m: "new_TAG_List nl n tt p = Inr t"
      by (auto split: sum.splits dest!: withStream_Inr)
    from 11 [rule_format, OF rp, of k] m
    show "(byteOffset s' \<le> k \<longrightarrow> construct C_List nl n (truncate_at k s) = Inr (t, truncate_at k s'))
        \<and> (byteOffset s \<le> k \<and> k < byteOffset s' \<longrightarrow>
             truncation_error (construct C_List nl n (truncate_at k s)))"
      by (auto simp: withStream_def truncation_error_def)
  qed
next
  case (12 nl n s)
  show ?case
  proof (intro allI impI)
    fix t s' k assume eq: "construct C_Compound nl n s = Inr (t, s')"
    then obtain p where rp: "TAG_Compound_readPayload s = Inr (p, s')"
      and m: "new_TAG_Compound nl n p = Inr t"
      by (auto split: sum.splits dest!: withStream_Inr)
    from 12 [rule_format, OF rp, of k] m
    show "(byteOffset s' \<le> k \<longrightarrow> construct C_Compound nl n (truncate_at k s) = Inr (t, truncate_at k s'))
        \<and> (byteOffset s \<le> k \<and> k < byteOffset s' \<longrightarrow>
             truncation_error (construct C_Compound nl n (truncate_at k s)))"
      by (auto simp: withStream_def truncation_error_def)
  qed
next
  case (13 nl n s)
  show ?case
    using construct_reader_cut [where rd = TAG_Int_Array_readPayload
        and mk = "new_TAG_Int_Array nl n", OF array_readPayload_cut(3)]
    by simp
next
  case (14 nl n s)
  show ?case
    using construct_reader_cut [where rd = TAG_Long_Array_readPayload
        and mk = "new_TAG_Long_Array nl n", OF array_readPayload_cut(4)]
    by simp
next
  case (15 s)
  show ?case
  proof (intro allI impI)
    fix x s' k assume eq: "TAG_List_readPayload s = Inr (x, s')"
    from eq obtain tagType s1 payloadLength s2 res where
      rv1: "readView s 1 (\<lambda>buf data. getUint8 buf data 0) = Inr (tagType, s1)"
      and rv2: "readView s1 4 (\<lambda>buf data. getInt32 buf data 0) = Inr (payloadLength, s2)"
      and nn: "\<not> payloadLength < 0"
      and lp: "TAG_List_readPayload_loop (TAG_ID_TO_CLASS tagType) (nat payloadLength) s2
                 = Inr (res, s')"
      and x: "x = (num tagType, res)"
      by (auto simp: TAG_List_readPayload.simps [of s] split: if_splits sum.splits prod.splits)
    note IH = 15 [OF rv1 refl rv2 refl nn, rule_format, OF lp, of k]
    from readView_Inr [OF rv1] readView_Inr [OF rv2]
    have o: "byteOffset s1 = byteOffset s + 1" "byteOffset s2 = byteOffset s1 + 4" by simp_all
    from parse_advances(4) lp have "advances s2 s'" by blast
    then have le: "byteOffset s2 \<le> byteOffset s'" by (simp add: advances_def)
    note c1 = readView_cut [OF reads_view_getters(1) rv1, of k]
      and c2 = readView_cut [OF reads_view_getters(3) rv2, of k]
    show "(byteOffset s' \<le> k \<longrightarrow> TAG_List_readPayload (truncate_at k s) = Inr (x, truncate_at k s'))
        \<and> (byteOffset s \<le> k \<and> k < byteOffset s' \<longrightarrow>
             truncation_error (TAG_List_readPayload (truncate_at k s)))"
    proof (intro conjI impI)
      assume k: "byteOffset s' \<le> k"
      with le o c1 c2 IH nn show "TAG_List_readPayload (truncate_at k s) = Inr (x, truncate_at k s')"
        by (simp add: TAG_List_readPayload.simps [of "truncate_at k s"] x)
    next
      assume k: "byteOffset s \<le> k \<and> k < byteOffset s'"
      show "truncation_error (TAG_List_readPayload (truncate_at k s))"
      proof (cases "k < byteOffset s1")
        case True
        with c1 show ?thesis by (simp add: TAG_List_readPayload.simps [of "truncate_at k s"])
      next
        case n1: False
        show ?thesis
        proof (cases "k < byteOffset s2")
          case True
          with n1 c1 c2 show ?thesis by (simp add: TAG_List_readPayload.simps [of "truncate_at k s"])
        next
          case False
          with k IH have "truncation_error (TAG_List_readPayload_loop (TAG_ID_TO_CLASS tagType)
              (nat payloadLength) (truncate_at k s2))" by simp
          with False o c1 c2 nn show ?thesis
            by (simp add: TAG_List_readPayload.simps [of "truncate_at k s"] truncation_error_case)
        qed
      qed
    qed
  qed
next
  case (16 tagClass s)
  show ?case by simp
next
  case (17 tagClass j s)
  show ?case
  proof (intro allI impI)
    fix ts s' k assume eq: "TAG_List_readPayload_loop tagClass (Suc j) s = Inr (ts, s')"
    then obtain c t s1 res where tc: "tagClass = Some c"
      and con: "construct c (Finite 0) [] s = Inr (t, s1)"
      and lp: "TAG_List_readPayload_loop tagClass j s1 = Inr (res, s')"
      and ts: "ts = t # res"
      by (auto split: option.splits sum.splits)
    note IH1 = 17(1) [OF tc, rule_format, OF con, of k]
      and IH2 = 17(2) [OF tc con refl, rule_format, OF lp, of k]
    from parse_advances(2) con have "advances s s1" by blast
    moreover from parse_advances(4) lp have "advances s1 s'" by blast
    ultimately have le: "byteOffset s \<le> byteOffset s1" "byteOffset s1 \<le> byteOffset s'"
      by (simp_all add: advances_def)
    show "(byteOffset s' \<le> k \<longrightarrow>
            TAG_List_readPayload_loop tagClass (Suc j) (truncate_at k s) = Inr (ts, truncate_at k s'))
        \<and> (byteOffset s \<le> k \<and> k < byteOffset s' \<longrightarrow>
             truncation_error (TAG_List_readPayload_loop tagClass (Suc j) (truncate_at k s)))"
    proof (intro conjI impI)
      assume "byteOffset s' \<le> k"
      with le IH1 IH2
      show "TAG_List_readPayload_loop tagClass (Suc j) (truncate_at k s) = Inr (ts, truncate_at k s')"
        by (simp add: tc ts)
    next
      assume k: "byteOffset s \<le> k \<and> k < byteOffset s'"
      show "truncation_error (TAG_List_readPayload_loop tagClass (Suc j) (truncate_at k s))"
      proof (cases "k < byteOffset s1")
        case True
        with k IH1 have "truncation_error (construct c (Finite 0) [] (truncate_at k s))" by simp
        then show ?thesis by (simp add: tc truncation_error_case)
      next
        case False
        with k IH1 IH2 have "construct c (Finite 0) [] (truncate_at k s) = Inr (t, truncate_at k s1)"
          and "truncation_error (TAG_List_readPayload_loop tagClass j (truncate_at k s1))" by simp_all
        then show ?thesis by (simp add: tc truncation_error_case)
      qed
    qed
  qed
next
  case (18 s)
  show ?case
  proof (intro allI impI)
    fix ts s' k assume eq: "TAG_Compound_readPayload s = Inr (ts, s')"
    note ps = TAG_Compound_readPayload.simps [of s]
    from eq ps obtain t s1 where p: "parseNBT s = Inr (t, s1)"
      by (auto split: sum.splits)
    note IH1 = 18(1) [rule_format, OF p, of k]
    from parse_advances(1) p have lt: "byteOffset s < byteOffset s1" by blast
    show "(byteOffset s' \<le> k \<longrightarrow> TAG_Compound_readPayload (truncate_at k s) = Inr (ts, truncate_at k s'))
        \<and> (byteOffset s \<le> k \<and> k < byteOffset s' \<longrightarrow>
             truncation_error (TAG_Compound_readPayload (truncate_at k s)))"
    proof (cases "tag_id t \<noteq> 0")
      case True
      with eq ps p obtain payload where r: "TAG_Compound_readPayload s1 = Inr (payload, s')"
        and ts: "ts = t # payload"
        by (auto split: sum.splits)
      note IH2 = 18(2) [OF p refl True, rule_format, OF r, of k]
      from parse_advances(5) r have "advances s1 s'" by blast
      then have le: "byteOffset s1 \<le> byteOffset s'" by (simp add: advances_def)
      show ?thesis
      proof (intro conjI impI)
        assume "byteOffset s' \<le> k"
        with le IH1 IH2 True show "TAG_Compound_readPayload (truncate_at k s) = Inr (ts, truncate_at k s')"
          by (simp add: TAG_Compound_readPayload.simps [of "truncate_at k s"] ts)
      next
        assume k: "byteOffset s \<le> k \<and> k < byteOffset s'"
        show "truncation_error (TAG_Compound_readPayload (truncate_at k s))"
        proof (cases "k < byteOffset s1")
          case True
          with IH1 have "truncation_error (parseNBT (truncate_at k s))" by simp
          then show ?thesis
            by (simp add: TAG_Compound_readPayload.simps [of "truncate_at k s"] truncation_error_case)
        next
          case False
          with k IH1 IH2 have "parseNBT (truncate_at k s) = Inr (t, truncate_at k s1)"
            and "truncation_error (TAG_Compound_readPayload (truncate_at k s1))" by simp_all
          with True show ?thesis
            by (simp add: TAG_Compound_readPayload.simps [of "truncate_at k s"] truncation_error_case)
        qed
      qed
    next
      case False
      with eq ps p have s': "s' = s1" and ts: "ts = [t]" by simp_all
      show ?thesis
      proof (intro conjI impI)
        assume "byteOffset s' \<le> k"
        with s' IH1 False show "TAG_Compound_readPayload (truncate_at k s) = Inr (ts, truncate_at k s')"
          by (simp add: TAG_Compound_readPayload.simps [of "truncate_at k s"] ts)
      next
        assume k: "byteOffset s \<le> k \<and> k < byteOffset s'"
        with s' IH1 have "truncation_error (parseNBT (truncate_at k s))" by simp
        then show "truncation_error (TAG_Compound_readPayload (truncate_at k s))"
          by (simp add: TAG_Compound_readPayload.simps [of "truncate_at k s"] truncation_error_case)
      qed
    qed
  qed
qed


lemma take1_drop: "i < length xs \<Longrightarrow> take (Suc 0) (drop i xs) = [xs ! i]"
  by (simp add: Cons_nth_drop_Suc [symmetric])

lemma take2_drop: "Suc i < length xs \<Longrightarrow> take 2 (drop i xs) = [xs ! i, xs ! Suc i]"
  by (simp add: Cons_nth_drop_Suc [symmetric] numeral_2_eq_2)

lemma TAG_ID_TO_CLASS_None: "TAG_ID_TO_CLASS i = None \<longleftrightarrow> 12 < i"
  by (simp add: TAG_ID_TO_CLASS_def) arith

lemma readView_getUint8:
  "byteOffset s < length (buffer s) \<Longrightarrow>
     readView s 1 (\<lambda>buf data. getUint8 buf data 0)
     = Inr (unat (buffer s ! byteOffset s), s\<lparr>byteOffset := byteOffset s + 1\<rparr>)"
  by (simp add: readView_def DataView_def getUint8_def dv_get_def take1_drop be_nat_def)

lemma getNBTName_result:
  "getNBTName s =
     (if byteOffset s + 2 \<le> length (buffer s)
         \<and> byteOffset s + 2 + be_nat [buffer s ! byteOffset s, buffer s ! (byteOffset s + 1)]
             \<le> length (buffer s)
      then Inr ((utf8Decode (map (\<lambda>i. of_nat (be_nat (take 1 (drop (byteOffset s + 2 + 1 * i) (buffer s)))))
                   [0..<be_nat [buffer s ! byteOffset s, buffer s ! (byteOffset s + 1)]]),
                 be_nat [buffer s ! byteOffset s, buffer s ! (byteOffset s + 1)]),
                s\<lparr>byteOffset := byteOffset s + 2
                   + be_nat [buffer s ! byteOffset s, buffer s ! (byteOffset s + 1)]\<rparr>)
      else Inl RangeError)"
  by (simp add: getNBTName_def readView_def DataView_def getUint16_def dv_get_def take2_drop
      readElements_def)


section \<open>Constructors: what they accept and what they cache\<close>

lemma foldl_add_sum_list:
  "foldl (\<lambda>a b. a + f b) a xs = a + sum_list (map f xs)" for a :: nat
  by (induction xs arbitrary: a) simp_all

lemma sumTotalLength_sum_list: "sumTotalLength payload = sum_list (map getTotalLength payload)"
  by (simp add: sumTotalLength_def foldl_add_sum_list)

lemma new_TAG_List_payloadLength:
  "new_TAG_List nl n tagType payload = Inr t \<Longrightarrow>
     getPayloadLength t = 2 + (5 + sum_list (map getTotalLength payload))"
  by (auto simp: new_TAG_List_def sumTotalLength_sum_list Let_def split: if_splits)

lemma new_TAG_Compound_payloadLength:
  "new_TAG_Compound nl n payload = Inr t \<Longrightarrow>
     getPayloadLength t = sum_list (map getTotalLength payload)"
  by (auto simp: new_TAG_Compound_def sumTotalLength_sum_list Let_def split: if_splits)

lemma new_TAG_Compound_result:
  "new_TAG_Compound nl n payload =
     (if payload = [] then Inl TypeError
      else if tag_id (last payload) \<noteq> 0 then Inl CompoundMustEnd
      else Inr (TAG_Compound nl n payload (sum_list (map getTotalLength payload))))"
  by (simp add: new_TAG_Compound_def sumTotalLength_sum_list)

lemma isInteger_iff: "isInteger x \<longleftrightarrow> (\<exists>i. x = Finite (of_int i))"
  by (cases x) auto

lemma new_TAG_Short_accepts:
  "(\<exists>t. new_TAG_Short nl n payload = Inr t)
     \<longleftrightarrow> (\<exists>i. payload = Finite (of_int i) \<and> - 32768 \<le> i \<and> i \<le> 32767)"
  by (cases payload) (auto simp: new_TAG_Short_def)

lemma new_TAG_Int_accepts:
  "(\<exists>t. new_TAG_Int nl n payload = Inr t)
     \<longleftrightarrow> (\<exists>i. payload = Finite (of_int i) \<and> - 2147483648 \<le> i \<and> i \<le> 2147483647)"
  by (cases payload) (auto simp: new_TAG_Int_def)

lemma construct_Float_integral:
  "TAG_Float_readPayload s = Inr (x, s') \<Longrightarrow> isInteger x \<Longrightarrow>
     construct C_Float nl n s = Inl InvalidPayload"
  "TAG_Double_readPayload s = Inr (x, s') \<Longrightarrow> isInteger x \<Longrightarrow>
     construct C_Double nl n s = Inl InvalidPayload"
  by (simp_all add: withStream_def new_TAG_Float_def new_TAG_Double_def)

lemma new_TAG_Byte_accepts:
  "(\<exists>t. new_TAG_Byte nl n payload = Inr t)
     \<longleftrightarrow> payload = NaN \<or> (\<exists>q. payload = Finite q \<and> - 128 \<le> q \<and> q \<le> 127)"
  by (cases payload) (auto simp: new_TAG_Byte_def)

section \<open>The claims\<close>

text \<open>
  C1 (round trip). The claim: decoding the bytes that encoding a valid tag produces gives
  back an equal tag and consumes \<open>getTotalLength\<close> bytes. On the code it fails at the
  Byte tag with the empty name and payload 5: the constructor accepts it, its total
  length is 6, \<open>toBytes\<close> writes the six bytes \<open>01 00 00 00 00 05\<close> (a header of five
  bytes for the empty name), and \<open>parseNBT\<close> reads a header of three bytes from them,
  takes the fourth byte as the payload and returns a Byte tag with payload 0 after four
  bytes.
\<close>

theorem C1_roundtrip_Byte:
  "new_TAG_Byte (Finite 0) [] (Finite 5) = Inr (TAG_Byte (Finite 0) [] (Finite 5))
   \<and> getTotalLength (TAG_Byte (Finite 0) [] (Finite 5)) = 6
   \<and> toBytes (TAG_Byte (Finite 0) [] (Finite 5))
         \<lparr>buffer = [0, 0, 0, 0, 0, 0], byteOffset = 0\<rparr>
       = Inr \<lparr>buffer = [1, 0, 0, 0, 0, 5], byteOffset = 6\<rparr>
   \<and> parseNBT \<lparr>buffer = [1, 0, 0, 0, 0, 5], byteOffset = 0\<rparr>
       = Inr (TAG_Byte (Finite 0) [] (Finite 0),
              \<lparr>buffer = [1, 0, 0, 0, 0, 5], byteOffset = 4\<rparr>)"
  by (simp add: new_defs enc_defs dec_defs dv_defs num_defs str_defs)

text \<open>
  C2 (encoding advances the cursor by the total length). The claim: for every tag,
  \<open>toBytes\<close> advances the cursor by \<open>getTotalLength\<close>. On the code it fails at the
  empty List: its total length is 12 (\<open>getPayloadLength\<close> is \<open>2 + _payloadLength\<close>,
  and \<open>_payloadLength\<close> is 5), and \<open>toBytes\<close> advances the cursor by 10, the header of
  five bytes and the five bytes of element type and count.
\<close>

theorem C2_List_advance:
  "new_TAG_List (Finite 0) [] (Finite 1) [] = Inr (TAG_List (Finite 0) [] (Finite 1) [] 5)
   \<and> getTotalLength (TAG_List (Finite 0) [] (Finite 1) [] 5) = 12
   \<and> toBytes (TAG_List (Finite 0) [] (Finite 1) [] 5)
         \<lparr>buffer = [0, 0, 0, 0, 0, 0, 0, 0, 0, 0, 0, 0], byteOffset = 0\<rparr>
       = Inr \<lparr>buffer = [9, 0, 0, 0, 0, 1, 0, 0, 0, 0, 0, 0], byteOffset = 10\<rparr>"
  by (simp add: new_defs enc_defs dv_defs num_defs str_defs)

text \<open>The empty List is written, and the cursor does not advance by its total length.\<close>

theorem C2_List_advance_witness:
  "\<exists>s'. toBytes (TAG_List (Finite 0) [] (Finite 1) [] 5)
           \<lparr>buffer = [0, 0, 0, 0, 0, 0, 0, 0, 0, 0, 0, 0], byteOffset = 0\<rparr> = Inr s'
        \<and> byteOffset s' \<noteq> 0 + getTotalLength (TAG_List (Finite 0) [] (Finite 1) [] 5)"
  using C2_List_advance by simp

text \<open>
  C3 (header layout). The claim: the encoder writes the id, the name length as two bytes
  big-endian, then the name bytes, and the decoder reads the same layout. On the code the
  encoder fails it at the Byte tag named \<open>"a"\<close> with \<open>nameLength\<close> 1: \<open>writeHeader\<close>
  writes the five bytes \<open>01 00 00 61 01\<close> (the name length as four bytes, the name byte
  over the third of them) where the layout is the four bytes \<open>01 00 01 61\<close>. A name of
  three bytes does not fit the view of five bytes, and \<open>writeHeader\<close> ends in a
  \<open>RangeError\<close>. The decoder reads the layout of the claim: from \<open>01 00 01 61 05\<close> it
  returns the Byte tag named \<open>"a"\<close> with payload 5.
\<close>

theorem C3_header_bytes:
  "writeHeader (TAG_Byte (Finite 1) [0x61] (Finite 5))
       \<lparr>buffer = [0, 0, 0, 0, 0, 0], byteOffset = 0\<rparr>
     = Inr \<lparr>buffer = [1, 0, 0, 0x61, 1, 0], byteOffset = 5\<rparr>
   \<and> writeHeader (TAG_Byte (Finite 3) [0x61, 0x62, 0x63] (Finite 5))
       \<lparr>buffer = [0, 0, 0, 0, 0, 0, 0, 0], byteOffset = 0\<rparr>
     = Inl RangeError
   \<and> parseNBT \<lparr>buffer = [1, 0, 1, 0x61, 5], byteOffset = 0\<rparr>
     = Inr (TAG_Byte (Finite 1) [0x61] (Finite 5),
            \<lparr>buffer = [1, 0, 1, 0x61, 5], byteOffset = 5\<rparr>)"
  by (simp add: new_defs enc_defs dec_defs dv_defs num_defs utf8Encode_a utf8Decode_a
      utf8Encode_abc)

text \<open>
  C4 (container payload lengths). The claim: \<open>getPayloadLength\<close> of a List is 5 plus the
  sum of its elements' total lengths, and of a Compound the sum of its members' total
  lengths. On the code the List half fails at the empty List, whose \<open>getPayloadLength\<close>
  is 7: the constructor computes \<open>1 + 4 +\<close> the sum, and \<open>getPayloadLength\<close> adds 2.
\<close>

theorem C4_List_payloadLength:
  "new_TAG_List (Finite 0) [] (Finite 1) [] = Inr (TAG_List (Finite 0) [] (Finite 1) [] 5)
   \<and> getPayloadLength (TAG_List (Finite 0) [] (Finite 1) [] 5) = 7"
  by (simp add: new_defs)

text \<open>The payload length of the empty List is not 5 plus the sum over no elements.\<close>

theorem C4_List_payloadLength_witness:
  "getPayloadLength (TAG_List (Finite 0) [] (Finite 1) [] 5)
     \<noteq> 5 + sum_list (map getTotalLength [])"
  using C4_List_payloadLength by simp

text \<open>
  C5 (integer payloads are validated). The claim: a non-integral or out-of-range payload
  is rejected by the Byte, Short, Int and Long constructors. On the code it fails at the
  Byte tag with payload 0.5, which the constructor accepts: it compares the payload with
  127 and -128 and has no integrality test, which the Short constructor has. The four
  Byte payloads the claim names behave as it says.
\<close>

theorem C5_Byte_fraction:
  "new_TAG_Byte (Finite 0) [] (Finite (1 / 2)) = Inr (TAG_Byte (Finite 0) [] (Finite (1 / 2)))
   \<and> new_TAG_Byte (Finite 0) [] (Finite 128) = Inl InvalidPayload
   \<and> new_TAG_Byte (Finite 0) [] (Finite (- 129)) = Inl InvalidPayload
   \<and> new_TAG_Byte (Finite 0) [] (Finite 127) = Inr (TAG_Byte (Finite 0) [] (Finite 127))
   \<and> new_TAG_Byte (Finite 0) [] (Finite (- 128)) = Inr (TAG_Byte (Finite 0) [] (Finite (- 128)))
   \<and> new_TAG_Short (Finite 0) [] (Finite (1 / 2)) = Inl InvalidPayload"
  by (simp add: new_defs floor_rat_divide_numeral)

text \<open>
  C6 (range of Long). The claim: the Long constructor accepts exactly the payloads from
  \<open>- 2 ^ 63\<close> to \<open>2 ^ 63 - 1\<close>, and rejects \<open>2 ^ 63\<close>. On the code it fails at
  \<open>2 ^ 63 = 9223372036854775808\<close>, which the constructor accepts: its upper bound is
  \<open>BigInt(9223372036854775807)\<close>, the literal is the double \<open>2 ^ 63\<close>, and the test is
  a strict comparison with it.
\<close>

theorem C6_Long_two_63:
  "new_TAG_Long (Finite 0) [] 9223372036854775808
     = Inr (TAG_Long (Finite 0) [] 9223372036854775808)"
  by (simp add: new_TAG_Long_eq)

text \<open>
  C7 (unknown type id). The claim: a buffer whose first byte is no type id fails to
  decode with the unknown-tag error, raised on reading the id, before the name length,
  the name or a payload is read. On the code it fails at the one-byte buffer \<open>0D\<close>:
  \<open>parseNBT\<close> looks the id up only after \<open>_getNBTName\<close> has read the name length and
  the name, and the read of the name length beyond the buffer ends in a \<open>RangeError\<close>.
\<close>

theorem C7_counterexample:
  "TAG_ID_TO_CLASS 13 = None
   \<and> parseNBT \<lparr>buffer = [13], byteOffset = 0\<rparr> = Inl RangeError
   \<and> parseNBT \<lparr>buffer = [13], byteOffset = 0\<rparr> \<noteq> Inl UnexpectedTagType"
  by (simp add: dec_defs dv_defs num_defs)

text \<open>
  C7, as amended: a buffer whose byte at the cursor is a type id outside 0 to 12 always
  fails to decode. The id is looked up after the two bytes of the name length and the
  name bytes have been read: the result is the unknown-tag error when the buffer holds
  the name length and as many bytes after it as the name length says, and a
  \<open>RangeError\<close> otherwise.
\<close>

theorem C7_unknown_id:
  assumes "byteOffset s < length (buffer s)" and "12 < unat (buffer s ! byteOffset s)"
  shows "parseNBT s =
     (if byteOffset s + 3 \<le> length (buffer s)
         \<and> byteOffset s + 3
             + be_nat [buffer s ! (byteOffset s + 1), buffer s ! (byteOffset s + 2)]
             \<le> length (buffer s)
      then Inl UnexpectedTagType else Inl RangeError)"
proof -
  let ?s1 = "s\<lparr>byteOffset := byteOffset s + 1\<rparr>"
  from assms(2) have none: "TAG_ID_TO_CLASS (unat (buffer s ! byteOffset s)) = None"
    by (simp add: TAG_ID_TO_CLASS_None)
  from assms(2) have nz: "unat (buffer s ! byteOffset s) \<noteq> 0" by simp
  note rv = readView_getUint8 [OF assms(1)]
  have "parseNBT s = (case getNBTName ?s1 of Inl e \<Rightarrow> Inl e | Inr x \<Rightarrow> Inl UnexpectedTagType)"
    apply (subst parseNBT.simps)
    apply (simp only: rv)
    using assms(1) nz none
    apply (simp split: sum.splits prod.splits)
    done
  also have "\<dots> = (if byteOffset s + 3 \<le> length (buffer s)
         \<and> byteOffset s + 3
             + be_nat [buffer s ! (byteOffset s + 1), buffer s ! (byteOffset s + 2)]
             \<le> length (buffer s)
      then Inl UnexpectedTagType else Inl RangeError)"
    by (subst getNBTName_result) (simp add: numeral_3_eq_3)
  finally show ?thesis .
qed

text \<open>The buffer \<open>0D 00 00\<close>: an unknown id and an empty name.\<close>

theorem C7_unknown_id_witness:
  "byteOffset \<lparr>buffer = [13, 0, 0], byteOffset = 0\<rparr> < length (buffer \<lparr>buffer = [13, 0, 0], byteOffset = 0\<rparr>)
   \<and> 12 < unat (buffer \<lparr>buffer = [13, 0, 0], byteOffset = 0\<rparr> ! byteOffset \<lparr>buffer = [13, 0, 0], byteOffset = 0\<rparr>)
   \<and> parseNBT \<lparr>buffer = [13, 0, 0], byteOffset = 0\<rparr> = Inl UnexpectedTagType"
  using C7_unknown_id [of "\<lparr>buffer = [13, 0, 0], byteOffset = 0\<rparr>"]
  by (simp add: be_nat_def)

text \<open>
  C8 (truncated input). The claim: a read that needs bytes beyond the buffer fails with
  the truncation error, checked before each field read; the three header bytes of a Short
  tag fail so. On the code the decoder's own check, "Reached end of buffer", is made at
  the entry of \<open>parseNBT\<close> only; the Short header \<open>02 00 00\<close> passes it, and the read
  of the payload fails with the \<open>RangeError\<close> of the view, not with that error.
\<close>

theorem C8_counterexample:
  "parseNBT \<lparr>buffer = [2, 0, 0], byteOffset = 0\<rparr> = Inl RangeError
   \<and> parseNBT \<lparr>buffer = [2, 0, 0], byteOffset = 0\<rparr> \<noteq> Inl ReachedEndOfBuffer"
  by (simp add: dec_defs dv_defs num_defs str_defs)

text \<open>
  C8, as amended: decoding fails whenever it needs a byte beyond the buffer, before the
  read, with one of two errors: "Reached end of buffer" at the entry of \<open>parseNBT\<close>,
  and the \<open>RangeError\<close> of the view taken for each later field. So when a tag decodes
  from a buffer, decoding from any prefix of the buffer that ends before the last byte
  consumed fails with one of the two.
\<close>

theorem C8_truncation:
  assumes "parseNBT s = Inr (t, s')" and "k < byteOffset s'"
  shows "truncation_error (parseNBT (truncate_at k s))"
  using parse_cut(1) [of s] assms by blast

text \<open>The Short tag \<open>02 00 00 01 02\<close> and its first three bytes.\<close>

theorem C8_truncation_witness:
  "parseNBT \<lparr>buffer = [2, 0, 0, 1, 2], byteOffset = 0\<rparr>
     = Inr (TAG_Short (Finite 0) [] (Finite 258), \<lparr>buffer = [2, 0, 0, 1, 2], byteOffset = 5\<rparr>)
   \<and> truncation_error (parseNBT (truncate_at 3 \<lparr>buffer = [2, 0, 0, 1, 2], byteOffset = 0\<rparr>))"
proof -
  have p: "parseNBT \<lparr>buffer = [2, 0, 0, 1, 2], byteOffset = 0\<rparr>
     = Inr (TAG_Short (Finite 0) [] (Finite 258), \<lparr>buffer = [2, 0, 0, 1, 2], byteOffset = 5\<rparr>)"
    by (simp add: dec_defs dv_defs new_defs num_defs str_defs)
  from C8_truncation [OF p, of 3] p show ?thesis by simp
qed

text \<open>
  C9 (Compound termination). The claim: a Compound whose payload does not end in an End
  tag is rejected with the structural error, and the payload \<open>[End]\<close> is accepted and
  encodes to one zero byte. On the code the first half fails at the empty payload: the
  constructor reads the \<open>id\<close> of the element at index \<open>-1\<close>, which is \<open>undefined\<close>, and
  the result is a \<open>TypeError\<close>, not the error the constructor throws for a missing End
  tag. The payload \<open>[End]\<close> behaves as the claim says.
\<close>

theorem C9_Compound_empty:
  "new_TAG_Compound (Finite 0) [] [] = Inl TypeError
   \<and> new_TAG_Compound (Finite 0) [] [TAG_End] = Inr (TAG_Compound (Finite 0) [] [TAG_End] 1)
   \<and> writePayload (TAG_Compound (Finite 0) [] [TAG_End] 1)
         \<lparr>buffer = [0xFF], byteOffset = 0\<rparr>
       = Inr \<lparr>buffer = [0], byteOffset = 1\<rparr>"
  by (simp add: new_defs enc_defs dv_defs num_defs)

text \<open>
  C10 (well-formed buffers that do not decode). The four payload bytes \<open>40 00 00 00\<close>
  are the binary32 pattern of 2.0. A Float tag with the empty name and this payload, and
  a List of one Float element with this payload, are both rejected by \<open>parseNBT\<close> with
  the error of the Float constructor, which runs on the decoded payload and rejects
  every integer. So is a Double tag with the binary64 pattern of 2.0.
\<close>

theorem C10_Float_integral:
  "parseNBT \<lparr>buffer = [5, 0, 0, 0x40, 0, 0, 0], byteOffset = 0\<rparr> = Inl InvalidPayload
   \<and> parseNBT \<lparr>buffer = [9, 0, 0, 5, 0, 0, 0, 1, 0x40, 0, 0, 0], byteOffset = 0\<rparr>
       = Inl InvalidPayload
   \<and> parseNBT \<lparr>buffer = [6, 0, 0, 0x40, 0, 0, 0, 0, 0, 0, 0], byteOffset = 0\<rparr>
       = Inl InvalidPayload"
  by (simp add: dec_defs dv_defs new_defs decode_float_two decode_double_two num_defs str_defs)

end
